theory Spec2Isabelle
  imports Complex_Main
begin

section \<open>Python values used by the program\<close>

text \<open>
  The program is \<^verbatim>\<open>src/main.py\<close> with \<^verbatim>\<open>src/Helper.py\<close>: vacancy statistics computed per
  chunk file by \<^verbatim>\<open>DataSet.get_statistics\<close> and combined by
  \<^verbatim>\<open>Multiprocessing.get_united_dict\<close>.

  Conventions of the embedding.
  \<^item> A Python \<^verbatim>\<open>dict\<close> is an association list in insertion order. Python keeps the keys
    of a dict distinct; \<open>wf_dict\<close> states it.
  \<^item> A raised exception is a value \<open>Inl e\<close> of a sum type, a returned value is \<open>Inr v\<close>.
  \<^item> A Python \<^verbatim>\<open>int\<close> is an \<open>int\<close>. A Python \<^verbatim>\<open>float\<close> is a double: a finite one is the
    rational number it denotes, the others are the two infinities and NaN. What float
    arithmetic returns is not fixed by the model: the operations that round are
    parameters, and only what every implementation of doubles agrees on is written out
    (an integer up to \<open>2 ^ 53\<close> in absolute value converts to a float exactly).
  \<^item> A \<^verbatim>\<open>str\<close> is a \<open>string\<close>, its slice \<^verbatim>\<open>s[:4]\<close> is \<open>take 4 s\<close>.
\<close>

datatype error =
    IndexError
  | KeyError string
  | ValueError
  | OverflowError
  | ZeroDivisionError
  | RuntimeError

type_synonym ('k, 'v) dict = "('k \<times> 'v) list"

text \<open>Sequencing of computations that may raise: the first exception ends the run.\<close>

fun bind :: "error + 'a \<Rightarrow> ('a \<Rightarrow> error + 'b) \<Rightarrow> error + 'b" where
  "bind (Inl e) f = Inl e"
| "bind (Inr x) f = f x"

definition keys :: "('k, 'v) dict \<Rightarrow> 'k list" where
  "keys d = map fst d"

definition wf_dict :: "('k, 'v) dict \<Rightarrow> bool" where
  "wf_dict d = distinct (keys d)"

text \<open>\<^verbatim>\<open>d[k] = v\<close>: an existing key keeps its place, a new key goes last.\<close>

fun setitem :: "('k, 'v) dict \<Rightarrow> 'k \<Rightarrow> 'v \<Rightarrow> ('k, 'v) dict" where
  "setitem [] k v = [(k, v)]"
| "setitem ((k', v') # d) k v =
     (if k' = k then (k', v) # d else (k', v') # setitem d k v)"

text \<open>\<^verbatim>\<open>d[k]\<close> for a dict with string keys: \<^verbatim>\<open>KeyError\<close> on a missing key.\<close>

definition getitem :: "(string, 'v) dict \<Rightarrow> string \<Rightarrow> error + 'v" where
  "getitem d k = (case map_of d k of None \<Rightarrow> Inl (KeyError k) | Some v \<Rightarrow> Inr v)"

text \<open>\<^verbatim>\<open>d.update(other)\<close>: the items of \<open>other\<close> are stored into \<open>d\<close> in their order.\<close>

fun dict_update :: "('k, 'v) dict \<Rightarrow> ('k, 'v) dict \<Rightarrow> ('k, 'v) dict" where
  "dict_update d [] = d"
| "dict_update d ((k, v) # other) = dict_update (setitem d k v) other"

text \<open>\<^verbatim>\<open>dict(pairs)\<close> for a list of pairs.\<close>

definition py_dict :: "('k \<times> 'v) list \<Rightarrow> ('k, 'v) dict" where
  "py_dict pairs = dict_update [] pairs"

section \<open>Numbers, builtins and float arithmetic\<close>

datatype pyfloat = Finite rat | PlusInfinity | MinusInfinity | NaN

text \<open>A number of the program: an \<^verbatim>\<open>int\<close> or a \<^verbatim>\<open>float\<close>.\<close>

datatype number = PyInt int | PyFloat pyfloat

text \<open>
  The builtins \<^verbatim>\<open>float(s)\<close>, \<^verbatim>\<open>int(s)\<close>, \<^verbatim>\<open>sum\<close> and \<^verbatim>\<open>round\<close> and the arithmetic of floats
  are not code of the repository. They are parameters of the model, so every theorem
  holds whatever strings the builtins accept and however the arithmetic rounds:
  \<^item> \<open>float_of_str\<close> is \<^verbatim>\<open>float(s)\<close> and \<open>int_of_str\<close> is \<^verbatim>\<open>int(s)\<close> for a string \<open>s\<close>;
  \<^item> \<open>float_of_int\<close> converts an \<^verbatim>\<open>int\<close> operand beyond \<open>2 ^ 53\<close> to a float: it rounds, or
    raises \<^verbatim>\<open>OverflowError\<close>;
  \<^item> \<open>float_mul\<close> and \<open>float_truediv\<close> are \<^verbatim>\<open>x * y\<close> and \<^verbatim>\<open>x / y\<close> (for \<open>y\<close> not zero) on floats;
  \<^item> \<open>int_truediv\<close> is \<^verbatim>\<open>a / b\<close> for two \<^verbatim>\<open>int\<close>s, \<open>b\<close> not zero, where the quotient is not an
    integer up to \<open>2 ^ 53\<close>: it rounds, or raises \<^verbatim>\<open>OverflowError\<close>;
  \<^item> \<open>float_sum\<close> is \<^verbatim>\<open>sum(xs)\<close> for a list that holds a float;
  \<^item> \<open>round_digits\<close> is \<^verbatim>\<open>round(x, n)\<close> for a float \<open>x\<close>.
\<close>

record builtins =
  float_of_str :: "string \<Rightarrow> error + pyfloat"
  int_of_str :: "string \<Rightarrow> error + int"
  float_of_int :: "int \<Rightarrow> error + pyfloat"
  float_mul :: "pyfloat \<Rightarrow> pyfloat \<Rightarrow> pyfloat"
  float_truediv :: "pyfloat \<Rightarrow> pyfloat \<Rightarrow> pyfloat"
  int_truediv :: "int \<Rightarrow> int \<Rightarrow> error + pyfloat"
  float_sum :: "number list \<Rightarrow> error + pyfloat"
  round_digits :: "pyfloat \<Rightarrow> nat \<Rightarrow> pyfloat"

text \<open>\<^verbatim>\<open>int(x)\<close> for a float \<open>x\<close>: truncation toward zero; an infinity and NaN are refused.\<close>

definition trunc :: "rat \<Rightarrow> int" where
  "trunc r = (if 0 \<le> r then \<lfloor>r\<rfloor> else \<lceil>r\<rceil>)"

definition py_int :: "pyfloat \<Rightarrow> error + int" where
  "py_int x =
     (case x of
        Finite r \<Rightarrow> Inr (trunc r)
      | PlusInfinity \<Rightarrow> Inl OverflowError
      | MinusInfinity \<Rightarrow> Inl OverflowError
      | NaN \<Rightarrow> Inl ValueError)"

text \<open>The conversion of an \<^verbatim>\<open>int\<close> operand where the other operand is a float.\<close>

definition to_float :: "builtins \<Rightarrow> int \<Rightarrow> error + pyfloat" where
  "to_float py n = (if \<bar>n\<bar> \<le> 2 ^ 53 then Inr (Finite (of_int n)) else float_of_int py n)"

text \<open>\<^verbatim>\<open>x * n\<close> for a number \<open>x\<close> and an \<^verbatim>\<open>int\<close> \<open>n\<close>.\<close>

definition py_mul :: "builtins \<Rightarrow> number \<Rightarrow> int \<Rightarrow> error + number" where
  "py_mul py x n =
     (case x of
        PyInt m \<Rightarrow> Inr (PyInt (m * n))
      | PyFloat a \<Rightarrow> bind (to_float py n) (\<lambda>b. Inr (PyFloat (float_mul py a b))))"

text \<open>
  \<^verbatim>\<open>x / n\<close> for a number \<open>x\<close> and an \<^verbatim>\<open>int\<close> \<open>n\<close>: a float, or \<^verbatim>\<open>ZeroDivisionError\<close> for \<open>n = 0\<close>.
  The quotient of two \<^verbatim>\<open>int\<close>s that is an integer up to \<open>2 ^ 53\<close> is that integer.
\<close>

definition py_truediv :: "builtins \<Rightarrow> number \<Rightarrow> int \<Rightarrow> error + pyfloat" where
  "py_truediv py x n =
     (if n = 0 then Inl ZeroDivisionError
      else case x of
        PyInt m \<Rightarrow>
          (if n dvd m \<and> \<bar>m div n\<bar> \<le> 2 ^ 53 then Inr (Finite (of_int (m div n)))
           else int_truediv py m n)
      | PyFloat a \<Rightarrow> bind (to_float py n) (\<lambda>b. Inr (float_truediv py a b)))"

text \<open>
  \<^verbatim>\<open>sum(xs)\<close>: the exact sum, an \<^verbatim>\<open>int\<close>, when every item is an \<^verbatim>\<open>int\<close>; a float otherwise.
\<close>

fun ints_of :: "number list \<Rightarrow> int list option" where
  "ints_of [] = Some []"
| "ints_of (PyInt n # xs) = map_option ((#) n) (ints_of xs)"
| "ints_of (PyFloat x # xs) = None"

definition py_sum :: "builtins \<Rightarrow> number list \<Rightarrow> error + number" where
  "py_sum py xs =
     (case ints_of xs of
        Some ns \<Rightarrow> Inr (PyInt (sum_list ns))
      | None \<Rightarrow> bind (float_sum py xs) (\<lambda>total. Inr (PyFloat total)))"

section \<open>The record normalizer: \<^verbatim>\<open>Vacancy.__init__\<close>\<close>

text \<open>
  The table of rates. A float literal denotes a double; each rate below is the rational
  number that the double of its literal is (35.68, 23.91, 59.90, 21.74, 0.76, 0.13, 1.64,
  60.66 and 0.0055). The rate of RUR is the \<^verbatim>\<open>int\<close> 1.
\<close>

definition currency_to_rub :: "(string, number) dict" where
  "currency_to_rub =
     [(''AZN'', PyFloat (Finite (5021513584518103 / 2 ^ 47))),
      (''BYR'', PyFloat (Finite (6730066693151785 / 2 ^ 48))),
      (''EUR'', PyFloat (Finite (8430175552484147 / 2 ^ 47))),
      (''GEL'', PyFloat (Finite (6119265993689661 / 2 ^ 48))),
      (''KGS'', PyFloat (Finite (3422735716801577 / 2 ^ 52))),
      (''KZT'', PyFloat (Finite (1170935903116329 / 2 ^ 53))),
      (''RUR'', PyInt 1),
      (''UAH'', PyFloat (Finite (7385903388887613 / 2 ^ 52))),
      (''USD'', PyFloat (Finite (2134284010908549 / 2 ^ 45))),
      (''UZS'', PyFloat (Finite (3170534137668829 / 2 ^ 59)))]"

record vacancy =
  name :: string
  salary_from :: int
  salary_to :: int
  salary_currency :: string
  salary_average :: pyfloat
  area_name :: string
  year :: int

text \<open>\<^verbatim>\<open>Helper.parse_year_from_date_slice\<close>: \<^verbatim>\<open>int(date[:4])\<close>.\<close>

definition parse_year_from_date_slice :: "builtins \<Rightarrow> string \<Rightarrow> error + int" where
  "parse_year_from_date_slice py date = int_of_str py (take 4 date)"

text \<open>
  The assignments of \<^verbatim>\<open>Vacancy.__init__\<close> in their order; \<open>row\<close> is the dict of one CSV row.
  The average is \<^verbatim>\<open>rate * (salary_from + salary_to) / 2\<close>: the product first, then the
  quotient.
\<close>

definition Vacancy_init :: "builtins \<Rightarrow> (string, string) dict \<Rightarrow> error + vacancy" where
  "Vacancy_init py row =
     bind (getitem row ''name'') (\<lambda>name'.
     bind (getitem row ''salary_from'') (\<lambda>from_str.
     bind (float_of_str py from_str) (\<lambda>float_from.
     bind (py_int float_from) (\<lambda>salary_from'.
     bind (getitem row ''salary_to'') (\<lambda>to_str.
     bind (float_of_str py to_str) (\<lambda>float_to.
     bind (py_int float_to) (\<lambda>salary_to'.
     bind (getitem row ''salary_currency'') (\<lambda>salary_currency'.
     bind (getitem currency_to_rub salary_currency') (\<lambda>rate.
     bind (py_mul py rate (salary_from' + salary_to')) (\<lambda>product.
     bind (py_truediv py product 2) (\<lambda>salary_average'.
     bind (getitem row ''area_name'') (\<lambda>area_name'.
     bind (getitem row ''published_at'') (\<lambda>published_at.
     bind (parse_year_from_date_slice py published_at) (\<lambda>year'.
     Inr \<lparr>name = name',
          salary_from = salary_from',
          salary_to = salary_to',
          salary_currency = salary_currency',
          salary_average = salary_average',
          area_name = area_name',
          year = year'\<rparr>))))))))))))))"

section \<open>The chunk aggregator: \<^verbatim>\<open>DataSet\<close>\<close>

text \<open>
  \<^verbatim>\<open>get_statistics\<close> returns a tuple of four dicts from year to \<^verbatim>\<open>int\<close>:
  \<^verbatim>\<open>(stat_salary, vacancies_number, stat_salary_by_vac, vacs_per_name)\<close>.
\<close>

type_synonym year_dict = "(int, int) dict"
type_synonym statistics = "year_dict \<times> year_dict \<times> year_dict \<times> year_dict"

text \<open>
  \<^verbatim>\<open>increment\<close>, as it is called: \<open>subject\<close> maps keys to lists, and \<^verbatim>\<open>+=\<close> on a list
  appends.
\<close>

definition increment :: "('k, 'v list) dict \<Rightarrow> 'k \<Rightarrow> 'v list \<Rightarrow> ('k, 'v list) dict" where
  "increment subject key value =
     (case map_of subject key of
        Some old \<Rightarrow> setitem subject key (old @ value)
      | None \<Rightarrow> setitem subject key value)"

text \<open>
  The expression \<^verbatim>\<open>sum(data) / len(data)\<close> of \<^verbatim>\<open>get_average_dict\<close>: the sum, then the
  quotient, a float. On an empty list the sum is the \<^verbatim>\<open>int\<close> 0 and the division raises
  \<^verbatim>\<open>ZeroDivisionError\<close>.
\<close>

definition mean :: "builtins \<Rightarrow> number list \<Rightarrow> error + pyfloat" where
  "mean py data = bind (py_sum py data) (\<lambda>total. py_truediv py total (int (length data)))"

text \<open>
  \<^verbatim>\<open>get_average_dict\<close>: the loop over \<^verbatim>\<open>data.items()\<close> with the dict \<^verbatim>\<open>result\<close> built so
  far; \<^verbatim>\<open>int\<close> is applied to the quotient.
\<close>

fun average_loop ::
  "builtins \<Rightarrow> ('k, number list) dict \<Rightarrow> ('k, int) dict \<Rightarrow> error + ('k, int) dict" where
  "average_loop py [] result = Inr result"
| "average_loop py ((key, data) # rest) result =
     bind (mean py data) (\<lambda>quotient.
     bind (py_int quotient) (\<lambda>average.
       average_loop py rest (setitem result key average)))"

definition get_average_dict :: "builtins \<Rightarrow> ('k, number list) dict \<Rightarrow> error + ('k, int) dict" where
  "get_average_dict py data = average_loop py data []"

text \<open>
  \<^verbatim>\<open>csv_reader\<close>. Its input is the list of rows \<^verbatim>\<open>csv.reader\<close> yields for the file, each a
  list of fields. \<^verbatim>\<open>next(reader)\<close> on a file with no row raises \<^verbatim>\<open>StopIteration\<close> inside
  the generator, which Python turns into \<^verbatim>\<open>RuntimeError\<close>.
\<close>

definition csv_reader :: "string list list \<Rightarrow> error + (string, string) dict list" where
  "csv_reader file =
     (case file of
        [] \<Rightarrow> Inl RuntimeError
      | titles # rows \<Rightarrow>
          Inr (map (\<lambda>row. py_dict (zip titles row))
                 (filter (\<lambda>row. [] \<notin> set row \<and> length row = length titles) rows)))"

text \<open>
  \<^verbatim>\<open>s.startswith(sub)\<close>, and \<^verbatim>\<open>s.find(sub)\<close> under the name \<open>str_find\<close>: the lowest index
  of \<open>sub\<close> in \<open>s\<close>, or -1.
\<close>

fun startswith :: "string \<Rightarrow> string \<Rightarrow> bool" where
  "startswith s [] = True"
| "startswith [] (c # sub) = False"
| "startswith (x # s) (c # sub) = (x = c \<and> startswith s sub)"

fun str_find :: "string \<Rightarrow> string \<Rightarrow> int" where
  "str_find [] sub = (if sub = [] then 0 else - 1)"
| "str_find (x # s) sub =
     (if startswith (x # s) sub then 0
      else (let r = str_find s sub in if r = - 1 then - 1 else r + 1))"

text \<open>The local variables of \<^verbatim>\<open>get_statistics\<close> that its loop changes.\<close>

record accumulators =
  salary :: "(int, number list) dict"
  salary_of_vacancy_name :: "(int, number list) dict"
  salary_city :: "(string, number list) dict"
  vacancies_count :: nat

definition initial :: accumulators where
  "initial = \<lparr>salary = [], salary_of_vacancy_name = [], salary_city = [], vacancies_count = 0\<rparr>"

text \<open>
  The body of the loop of \<^verbatim>\<open>get_statistics\<close> after the vacancy is built. The average of
  a vacancy is a float.
\<close>

definition count_vacancy :: "string \<Rightarrow> accumulators \<Rightarrow> vacancy \<Rightarrow> accumulators" where
  "count_vacancy vacancy_name acc v =
     \<lparr>salary = increment (salary acc) (year v) [PyFloat (salary_average v)],
      salary_of_vacancy_name =
        (if str_find (name v) vacancy_name \<noteq> - 1
         then increment (salary_of_vacancy_name acc) (year v) [PyFloat (salary_average v)]
         else salary_of_vacancy_name acc),
      salary_city = increment (salary_city acc) (area_name v) [PyFloat (salary_average v)],
      vacancies_count = vacancies_count acc + 1\<rparr>"

fun get_statistics_loop ::
  "builtins \<Rightarrow> string \<Rightarrow> accumulators \<Rightarrow> (string, string) dict list \<Rightarrow> error + accumulators" where
  "get_statistics_loop py vacancy_name acc [] = Inr acc"
| "get_statistics_loop py vacancy_name acc (row # rows) =
     bind (Vacancy_init py row) (\<lambda>v.
       get_statistics_loop py vacancy_name (count_vacancy vacancy_name acc v) rows)"

text \<open>
  The loop that fills \<^verbatim>\<open>stat_salary_by_year\<close> with the share of each area,
  \<^verbatim>\<open>round(len(salaries) / vacancies_count, 4)\<close>: the division raises \<^verbatim>\<open>ZeroDivisionError\<close>
  when the count is 0.
\<close>

fun share_loop ::
  "builtins \<Rightarrow> (string, number list) dict \<Rightarrow> nat \<Rightarrow> (string, pyfloat) dict \<Rightarrow>
   error + (string, pyfloat) dict" where
  "share_loop py [] count result = Inr result"
| "share_loop py ((area, salaries) # rest) count result =
     bind (py_truediv py (PyInt (int (length salaries))) (int count)) (\<lambda>share.
       share_loop py rest count (setitem result area (round_digits py share 4)))"

text \<open>
  The part of \<^verbatim>\<open>get_statistics\<close> after its loop. The statements after the share loop
  filter and sort the shares and the city averages; they raise nothing and what they
  compute is not returned, so the model ends with the share loop.
\<close>

definition get_statistics_finish :: "builtins \<Rightarrow> accumulators \<Rightarrow> error + statistics" where
  "get_statistics_finish py acc =
     (let vacancies_number = py_dict (map (\<lambda>(key, value). (key, int (length value))) (salary acc));
          vacs_per_name =
            py_dict (map (\<lambda>(key, value). (key, int (length value))) (salary_of_vacancy_name acc));
          salary_of_vacancy_name' =
            (if salary_of_vacancy_name acc = []
             then py_dict (map (\<lambda>(key, value). (key, [PyInt 0])) (salary acc))
             else salary_of_vacancy_name acc);
          vacs_per_name' =
            (if salary_of_vacancy_name acc = []
             then py_dict (map (\<lambda>(key, value). (key, 0)) vacancies_number)
             else vacs_per_name)
      in bind (get_average_dict py (salary acc)) (\<lambda>stat_salary.
         bind (get_average_dict py salary_of_vacancy_name') (\<lambda>stat_salary_by_vac.
         bind (get_average_dict py (salary_city acc)) (\<lambda>stat_salary_by_city.
         bind (share_loop py (salary_city acc) (vacancies_count acc) []) (\<lambda>stat_salary_by_year.
         Inr (stat_salary, vacancies_number, stat_salary_by_vac, vacs_per_name'))))))"

text \<open>
  \<^verbatim>\<open>get_statistics\<close> of the \<^verbatim>\<open>DataSet\<close> with the profession \<open>vacancy_name\<close> and the file
  whose rows are \<open>file\<close>.
\<close>

definition get_statistics :: "builtins \<Rightarrow> string \<Rightarrow> string list list \<Rightarrow> error + statistics" where
  "get_statistics py vacancy_name file =
     bind (csv_reader file) (\<lambda>rows.
     bind (get_statistics_loop py vacancy_name initial rows) (get_statistics_finish py))"

section \<open>The merge of the per-chunk results\<close>

text \<open>\<^verbatim>\<open>answer[k]\<close> for \<^verbatim>\<open>k in range(0, 4)\<close>; no other \<open>k\<close> is used.\<close>

fun tuple_item :: "statistics \<Rightarrow> nat \<Rightarrow> year_dict" where
  "tuple_item (a, b, c, d) k =
     (if k = 0 then a else if k = 1 then b else if k = 2 then c else d)"

text \<open>The in-place change of the dict object \<^verbatim>\<open>answer[k]\<close>.\<close>

fun tuple_item_map :: "nat \<Rightarrow> (year_dict \<Rightarrow> year_dict) \<Rightarrow> statistics \<Rightarrow> statistics" where
  "tuple_item_map k f (a, b, c, d) =
     (if k = 0 then (f a, b, c, d) else if k = 1 then (a, f b, c, d)
      else if k = 2 then (a, b, f c, d) else (a, b, c, f d))"

text \<open>
  \<^verbatim>\<open>self.pools\<close> is the list of the \<^verbatim>\<open>AsyncResult\<close> objects of the tasks, in task order.
  Each holds the outcome of its task: the exception the task raised or the tuple it
  returned. \<^verbatim>\<open>AsyncResult.get()\<close> raises the former and returns the latter, the same
  object at every call. So the list of outcomes is the store the merge works on:
  slot \<open>i\<close> is the object \<^verbatim>\<open>self.pools[i].get()\<close> refers to, and the local variable
  \<^verbatim>\<open>answer\<close> is a reference to slot 0. The slots are distinct objects. The tasks run in
  worker processes; the model starts from their outcomes.
\<close>

type_synonym pools = "(error + statistics) list"

definition pool_get :: "pools \<Rightarrow> nat \<Rightarrow> error + statistics" where
  "pool_get ps i = (if i < length ps then ps ! i else Inl IndexError)"

text \<open>
  The body \<^verbatim>\<open>answer[k].update(self.pools[i].get()[k])\<close> of the inner loop, run for the
  values \<open>ks\<close> of \<^verbatim>\<open>k\<close>: the argument is evaluated first, then slot 0 is changed in place.
\<close>

fun update_items :: "pools \<Rightarrow> nat \<Rightarrow> nat list \<Rightarrow> error + pools" where
  "update_items ps i [] = Inr ps"
| "update_items ps i (k # ks) =
     bind (pool_get ps i) (\<lambda>other.
       update_items
         (ps[0 := map_sum id (tuple_item_map k (\<lambda>d. dict_update d (tuple_item other k))) (ps ! 0)])
         i ks)"

text \<open>The outer loop \<^verbatim>\<open>for i in range(1, len(self.pools))\<close>, run for the values \<open>is\<close>.\<close>

fun update_pools :: "pools \<Rightarrow> nat list \<Rightarrow> error + pools" where
  "update_pools ps [] = Inr ps"
| "update_pools ps (i # is) = bind (update_items ps i [0..<4]) (\<lambda>ps'. update_pools ps' is)"

text \<open>
  \<^verbatim>\<open>get_united_dict\<close> with the store made explicit: the value returned and the final
  contents of the slots.
\<close>

definition get_united_dict_store :: "pools \<Rightarrow> error + (statistics \<times> pools)" where
  "get_united_dict_store ps =
     bind (pool_get ps 0) (\<lambda>answer.
     bind (update_pools ps [1..<length ps]) (\<lambda>ps'.
     bind (pool_get ps' 0) (\<lambda>result. Inr (result, ps'))))"

definition get_united_dict :: "pools \<Rightarrow> error + statistics" where
  "get_united_dict ps = map_sum id fst (get_united_dict_store ps)"

section \<open>The dispatch coordinator: \<^verbatim>\<open>InputConnect.process_input\<close>\<close>

text \<open>
  One task per chunk file, in the order of the files; the merged tuple is what
  \<^verbatim>\<open>print_statistic\<close> prints, an exception ends the run. \<open>files\<close> are the rows of the
  chunk files.
\<close>

definition process_input :: "builtins \<Rightarrow> string \<Rightarrow> string list list list \<Rightarrow> error + statistics" where
  "process_input py vacancy_name files =
     get_united_dict (map (get_statistics py vacancy_name) files)"

section \<open>Auxiliary notions for the statements\<close>

text \<open>What one pass of the inner loop of \<^verbatim>\<open>get_united_dict\<close> makes of \<^verbatim>\<open>answer\<close>.\<close>

fun united :: "statistics \<Rightarrow> statistics \<Rightarrow> statistics" where
  "united (a, b, c, d) (a', b', c', d') =
     (dict_update a a', dict_update b b', dict_update c c', dict_update d d')"

text \<open>The values of a list of outcomes, or the first exception among them.\<close>

fun sequence :: "(error + 'a) list \<Rightarrow> error + 'a list" where
  "sequence [] = Inr []"
| "sequence (r # rs) = bind r (\<lambda>x. bind (sequence rs) (\<lambda>xs. Inr (x # xs)))"

text \<open>The test of the loop of \<^verbatim>\<open>get_statistics\<close>: the name of the vacancy holds the profession.\<close>

definition matching :: "string \<Rightarrow> vacancy \<Rightarrow> bool" where
  "matching vacancy_name v = (str_find (name v) vacancy_name \<noteq> - 1)"

text \<open>The vacancies of the valid rows of a chunk file, or the first exception.\<close>

definition chunk_vacancies :: "builtins \<Rightarrow> string list list \<Rightarrow> error + vacancy list" where
  "chunk_vacancies py file = bind (csv_reader file) (\<lambda>rows. sequence (map (Vacancy_init py) rows))"

text \<open>A dict of lists with every list replaced by its length, or by 0.\<close>

definition counted :: "('k, 'v list) dict \<Rightarrow> ('k, int) dict" where
  "counted data = map (\<lambda>(key, xs). (key, int (length xs))) data"

definition zeroed :: "('k, 'v list) dict \<Rightarrow> ('k, int) dict" where
  "zeroed data = map (\<lambda>(key, xs). (key, 0)) data"

section \<open>Sample inputs\<close>

text \<open>
  Builtins to run the program on samples. On a non-empty string of ASCII digits
  \<open>float_of_str\<close> and \<open>int_of_str\<close> return the number it denotes, as Python's \<^verbatim>\<open>float\<close> and
  \<^verbatim>\<open>int\<close> do for a number below \<open>2 ^ 53\<close>; every other string is refused here, although Python
  accepts more (signs, blanks, exponents). The arithmetic of the sample returns the exact
  sum, product, quotient and rounded value of finite operands. That is the arithmetic of
  doubles wherever the exact result is a double, and the samples stay there: their
  numeric fields are short strings of digits, and every sum, product, quotient and
  rounded share of the sample runs is an integer below \<open>2 ^ 53\<close>, the half of one, or the
  double of 60.66 or twice that. An operand that is not finite gives NaN here, as NaN
  does in doubles; no sample holds an infinity.
\<close>

definition digit :: "char \<Rightarrow> bool" where
  "digit c = (48 \<le> (of_char c :: nat) \<and> (of_char c :: nat) \<le> 57)"

definition decimal :: "string \<Rightarrow> nat" where
  "decimal s = foldl (\<lambda>n c. 10 * n + (of_char c - 48)) 0 s"

text \<open>An operation of the sample on two floats.\<close>

fun exact :: "(rat \<Rightarrow> rat \<Rightarrow> rat) \<Rightarrow> pyfloat \<Rightarrow> pyfloat \<Rightarrow> pyfloat" where
  "exact f (Finite a) (Finite b) = Finite (f a b)"
| "exact f a b = NaN"

text \<open>An item of a list that \<^verbatim>\<open>sum\<close> adds, as a float.\<close>

fun float_of_number :: "number \<Rightarrow> pyfloat" where
  "float_of_number (PyInt n) = Finite (of_int n)"
| "float_of_number (PyFloat x) = x"

text \<open>Rounding to the nearest integer, a tie to the even one, as \<^verbatim>\<open>round\<close> does.\<close>

definition round_half_even :: "rat \<Rightarrow> int" where
  "round_half_even x =
     (let f = \<lfloor>x\<rfloor>; d = x - of_int f
      in if d < 1 / 2 then f else if 1 / 2 < d then f + 1 else if even f then f else f + 1)"

definition sample_builtins :: builtins where
  "sample_builtins =
     \<lparr>float_of_str =
        (\<lambda>s. if s \<noteq> [] \<and> list_all digit s then Inr (Finite (of_nat (decimal s)))
             else Inl ValueError),
      int_of_str =
        (\<lambda>s. if s \<noteq> [] \<and> list_all digit s then Inr (int (decimal s)) else Inl ValueError),
      float_of_int = (\<lambda>n. Inr (Finite (of_int n))),
      float_mul = exact (*),
      float_truediv = exact (/),
      int_truediv = (\<lambda>m n. Inr (Finite (of_int m / of_int n))),
      float_sum = (\<lambda>xs. Inr (foldl (\<lambda>total x. exact (+) total (float_of_number x)) (Finite 0) xs)),
      round_digits =
        (\<lambda>x ndigits. case x of
           Finite r \<Rightarrow> Finite (of_int (round_half_even (r * 10 ^ ndigits)) / 10 ^ ndigits)
         | PlusInfinity \<Rightarrow> PlusInfinity
         | MinusInfinity \<Rightarrow> MinusInfinity
         | NaN \<Rightarrow> NaN)\<rparr>"

definition titles :: "string list" where
  "titles =
     [''name'', ''salary_from'', ''salary_to'', ''salary_currency'', ''area_name'',
      ''published_at'']"

text \<open>Three chunk files of one vacancy each; only the first names the profession Dev.\<close>

definition chunk_a :: "string list list" where
  "chunk_a = [titles, [''Dev'', ''100'', ''100'', ''RUR'', ''Omsk'', ''2020-01-01'']]"

definition chunk_b :: "string list list" where
  "chunk_b = [titles, [''QA'', ''200'', ''200'', ''RUR'', ''Perm'', ''2020-05-05'']]"

definition chunk_c :: "string list list" where
  "chunk_c = [titles, [''QA'', ''300'', ''300'', ''RUR'', ''Perm'', ''2021-03-03'']]"

text \<open>A chunk file whose vacancy has a currency that is not in the table.\<close>

definition chunk_d :: "string list list" where
  "chunk_d = [titles, [''Dev'', ''100'', ''100'', ''XXX'', ''Omsk'', ''2020-01-01'']]"

text \<open>A chunk file with two vacancies in two years; only the first names the profession Dev.\<close>

definition chunk_e :: "string list list" where
  "chunk_e =
     [titles,
      [''Dev'', ''100'', ''100'', ''RUR'', ''Omsk'', ''2020-01-01''],
      [''QA'', ''300'', ''300'', ''RUR'', ''Perm'', ''2021-03-03'']]"

text \<open>A chunk file whose vacancy has a date that does not start with a year.\<close>

definition chunk_f :: "string list list" where
  "chunk_f = [titles, [''Dev'', ''100'', ''100'', ''RUR'', ''Omsk'', ''20x0-01-01'']]"

section \<open>The merge as the specification words it\<close>

text \<open>
  The specification describes a merge of the raw accumulators of the chunks before
  any averaging: for each grouped map the union of the keys, each key with the
  concatenation of the chunks' lists, and the sum of the counts; the finalizer then runs
  once on the merged accumulator. These definitions follow those words, to compare the
  code with.
\<close>

definition spec_merge :: "('k, 'v list) dict list \<Rightarrow> ('k, 'v list) dict" where
  "spec_merge ds = foldl (\<lambda>merged d. foldl (\<lambda>m (key, xs). increment m key xs) merged d) [] ds"

definition spec_merged_accumulator :: "accumulators list \<Rightarrow> accumulators" where
  "spec_merged_accumulator accs =
     \<lparr>salary = spec_merge (map salary accs),
      salary_of_vacancy_name = spec_merge (map salary_of_vacancy_name accs),
      salary_city = spec_merge (map salary_city accs),
      vacancies_count = sum_list (map vacancies_count accs)\<rparr>"

definition spec_process_input ::
  "builtins \<Rightarrow> string \<Rightarrow> string list list list \<Rightarrow> error + statistics" where
  "spec_process_input py vacancy_name files =
     bind (sequence (map (\<lambda>file. bind (csv_reader file)
                                   (get_statistics_loop py vacancy_name initial)) files))
       (\<lambda>accs. get_statistics_finish py (spec_merged_accumulator accs))"

section \<open>Properties of dicts\<close>

lemma map_of_setitem: "map_of (setitem d k v) x = (if x = k then Some v else map_of d x)"
  by (induction d) auto

lemma keys_setitem:
  "keys (setitem d k v) = (if k \<in> set (keys d) then keys d else keys d @ [k])"
  by (induction d) (force simp: keys_def)+

lemma wf_setitem: "wf_dict d \<Longrightarrow> wf_dict (setitem d k v)"
  by (simp add: wf_dict_def keys_setitem)

lemma setitem_fresh: "k \<notin> set (keys d) \<Longrightarrow> setitem d k v = d @ [(k, v)]"
  by (induction d) (auto simp: keys_def)

lemma map_of_dict_update:
  "map_of (dict_update d other) x =
     (case map_of (rev other) x of Some v \<Rightarrow> Some v | None \<Rightarrow> map_of d x)"
  by (induction d other rule: dict_update.induct)
     (auto simp: map_of_setitem map_add_def split: option.splits)

lemma map_of_rev_distinct: "distinct (map fst xs) \<Longrightarrow> map_of (rev xs) = map_of xs"
proof (induction xs)
  case Nil
  show ?case by simp
next
  case (Cons p xs)
  obtain k v where p: "p = (k, v)" by (cases p)
  have "map_of xs k = None"
    using Cons.prems p by (simp add: map_of_eq_None_iff)
  then show ?case
    using Cons p by (auto simp: fun_eq_iff map_add_def split: option.splits)
qed

lemma map_of_dict_update_wf:
  "wf_dict other \<Longrightarrow>
   map_of (dict_update d other) x =
     (case map_of other x of Some v \<Rightarrow> Some v | None \<Rightarrow> map_of d x)"
  by (simp add: map_of_dict_update map_of_rev_distinct wf_dict_def keys_def)

lemma set_keys_dict_update:
  "set (keys (dict_update d other)) = set (keys d) \<union> set (keys other)"
proof (induction d other rule: dict_update.induct)
  case (1 d)
  show ?case by (simp add: keys_def)
next
  case (2 d k v other)
  have "set (keys ((k, v) # other)) = insert k (set (keys other))"
    by (simp add: keys_def)
  then show ?case
    using 2 by (auto simp: keys_setitem)
qed

lemma wf_dict_update: "wf_dict d \<Longrightarrow> wf_dict (dict_update d other)"
  by (induction d other rule: dict_update.induct) (simp_all add: wf_setitem)

lemma dict_update_disjoint:
  "wf_dict other \<Longrightarrow> set (keys d) \<inter> set (keys other) = {} \<Longrightarrow> dict_update d other = d @ other"
proof (induction d other rule: dict_update.induct)
  case (1 d)
  then show ?case by simp
next
  case (2 d k v other)
  have fresh: "k \<notin> set (keys d)"
    using "2.prems"(2) by (auto simp: keys_def)
  have "wf_dict other" "set (keys (d @ [(k, v)])) \<inter> set (keys other) = {}"
    using "2.prems" by (auto simp: wf_dict_def keys_def)
  with "2.IH" fresh show ?case
    by (simp add: setitem_fresh)
qed

section \<open>Properties of the merge\<close>

lemma upt_0_4: "[0..<4] = [0, 1, 2, 3]"
  by (simp add: upt_rec)

lemma update_items_ok:
  assumes "0 < i" "i < length ps" "ps ! i = Inr other" "ps ! 0 = Inr a"
  shows "update_items ps i [0..<4] = Inr (ps[0 := Inr (united a other)])"
proof -
  obtain a0 a1 a2 a3 where a: "a = (a0, a1, a2, a3)" by (cases a)
  obtain b0 b1 b2 b3 where b: "other = (b0, b1, b2, b3)" by (cases other)
  have len: "ps \<noteq> []" using assms by auto
  show ?thesis
    using assms len by (simp add: upt_0_4 pool_get_def a b)
qed

lemma update_items_err:
  assumes "i < length ps" "ps ! i = Inl e"
  shows "update_items ps i [0..<4] = Inl e"
  using assms by (simp add: upt_0_4 pool_get_def)

lemma update_pools_ok:
  assumes "\<And>i. i \<in> set is \<Longrightarrow> 0 < i \<and> i < length ps \<and> ps ! i = Inr (f i)" "ps ! 0 = Inr a"
  shows "update_pools ps is = Inr (ps[0 := Inr (foldl united a (map f is))])"
  using assms
proof (induction "is" arbitrary: ps a)
  case Nil
  then show ?case by (simp add: list_update_id[of ps 0, simplified Nil.prems(2)]) 
next
  case (Cons i "is")
  have i: "0 < i" "i < length ps" "ps ! i = Inr (f i)"
    using Cons.prems(1)[of i] by auto
  let ?ps = "ps[0 := Inr (united a (f i))]"
  have step: "update_items ps i [0..<4] = Inr ?ps"
    using i Cons.prems(2) by (rule update_items_ok)
  have "update_pools ?ps is = Inr (?ps[0 := Inr (foldl united (united a (f i)) (map f is))])"
  proof (rule Cons.IH)
    fix j assume "j \<in> set is"
    then show "0 < j \<and> j < length ?ps \<and> ?ps ! j = Inr (f j)"
      using Cons.prems(1)[of j] by auto
  next
    show "?ps ! 0 = Inr (united a (f i))" using i by (cases ps) auto
  qed
  then show ?case using step by simp
qed


lemma update_pools_append:
  "update_pools ps (is @ js) = bind (update_pools ps is) (\<lambda>ps'. update_pools ps' js)"
proof (induction "is" arbitrary: ps)
  case Nil show ?case by simp
next
  case (Cons i "is")
  show ?case by (cases "update_items ps i [0..<4]") (simp_all add: Cons.IH)
qed

lemma get_united_dict_store_ok:
  "get_united_dict_store (map Inr (s # ss)) =
     Inr (foldl united s ss, Inr (foldl united s ss) # map Inr ss)"
proof -
  let ?ps = "map Inr (s # ss) :: pools"
  have idx: "map ((!) (s # ss)) [Suc 0..<Suc (length ss)] = ss"
  proof -
    have "[Suc 0..<Suc (length ss)] = map Suc [0..<length ss]"
      by (simp only: map_Suc_upt)
    then show ?thesis by (simp add: comp_def map_nth del: upt_Suc)
  qed
  have "update_pools ?ps [1..<length ?ps] =
        Inr (?ps[0 := Inr (foldl united s (map (\<lambda>i. (s # ss) ! i) [1..<length ?ps]))])"
  proof (rule update_pools_ok)
    fix i assume "i \<in> set [1..<length ?ps]"
    then have i: "0 < i" "i < length (s # ss)" by auto
    have "?ps ! i = Inr ((s # ss) ! i)" using i(2) by (rule nth_map)
    then show "0 < i \<and> i < length ?ps \<and> ?ps ! i = Inr ((s # ss) ! i)"
      using i by simp
  qed simp
  then show ?thesis
    by (simp add: get_united_dict_store_def pool_get_def idx del: upt_Suc)
qed


lemma sequence_map_Inr: "sequence (map Inr xs) = Inr xs"
  by (induction xs) simp_all

lemma sequence_first_error: "sequence (map Inr xs @ Inl e # rest) = Inl e"
  by (induction xs) simp_all

lemma results_cases:
  obtains (ok) xs where "rs = map Inr xs"
        | (err) xs e rest where "rs = map Inr xs @ Inl e # rest"
proof (induction rs arbitrary: thesis)
  case Nil
  then show ?case by simp
next
  case (Cons r rs)
  show ?case
  proof (cases r)
    case (Inl e)
    then have "r # rs = map Inr [] @ Inl e # rs" by simp
    then show ?thesis by (rule Cons.prems(2))
  next
    case (Inr x)
    show ?thesis
    proof (rule Cons.IH)
      fix xs assume "rs = map Inr xs"
      then have "r # rs = map Inr (x # xs)" using Inr by simp
      then show thesis by (rule Cons.prems(1))
    next
      fix xs e rest assume "rs = map Inr xs @ Inl e # rest"
      then have "r # rs = map Inr (x # xs) @ Inl e # rest" using Inr by simp
      then show thesis by (rule Cons.prems(2))
    qed
  qed
qed

lemma upt_split: "a \<le> m \<Longrightarrow> m < n \<Longrightarrow> [a..<n] = [a..<m] @ m # [Suc m..<n]"
proof -
  assume a: "a \<le> m" and m: "m < n"
  have "[a..<m + (n - m)] = [a..<m] @ [m..<m + (n - m)]"
    using a by (rule upt_add_eq_append)
  moreover have "[m..<n] = m # [Suc m..<n]"
    using m by (rule upt_conv_Cons)
  ultimately show ?thesis using m by simp
qed

lemma get_united_dict_store_error:
  "get_united_dict_store (map Inr xs @ Inl e # rest) = Inl e"
proof (cases xs)
  case Nil
  then show ?thesis by (simp add: get_united_dict_store_def pool_get_def)
next
  case (Cons s ss)
  let ?ps = "map Inr (s # ss) @ Inl e # rest :: pools"
  let ?m = "Suc (length ss)"
  have split: "[1..<length ?ps] = [Suc 0..<?m] @ ?m # [Suc ?m..<length ?ps]"
    by (simp add: upt_split[of "Suc 0" ?m] del: upt_Suc upt.simps)
  have "update_pools ?ps [Suc 0..<?m] =
        Inr (?ps[0 := Inr (foldl united s (map ((!) (s # ss)) [Suc 0..<?m]))])"
  proof (rule update_pools_ok)
    fix i assume "i \<in> set [Suc 0..<?m]"
    then have i: "0 < i" "i < length (s # ss)" by auto
    then have "?ps ! i = map Inr (s # ss) ! i" by (simp only: nth_append length_map if_True)
    also have "\<dots> = Inr ((s # ss) ! i)" using i(2) by (rule nth_map)
    finally show "0 < i \<and> i < length ?ps \<and> ?ps ! i = Inr ((s # ss) ! i)"
      using i by simp
  qed simp
  moreover have "update_items (?ps[0 := x]) ?m [0..<4] = Inl e" for x
    by (rule update_items_err) (simp_all add: nth_append)
  ultimately have "update_pools ?ps [1..<length ?ps] = Inl e"
    by (simp only: split update_pools_append update_pools.simps bind.simps)
  then show ?thesis
    by (simp add: get_united_dict_store_def pool_get_def Cons)
qed

lemma get_united_dict_eq:
  "get_united_dict ps =
     (if ps = [] then Inl IndexError
      else bind (sequence ps) (\<lambda>ss. Inr (foldl united (hd ss) (tl ss))))"
proof (cases ps rule: results_cases)
  case (ok xs)
  show ?thesis
  proof (cases xs)
    case Nil
    then show ?thesis using ok by (simp add: get_united_dict_def get_united_dict_store_def pool_get_def)
  next
    case (Cons s ss)
    then show ?thesis
      using ok get_united_dict_store_ok[of s ss]
      by (simp add: get_united_dict_def sequence_map_Inr[of "s # ss", simplified])
  qed
next
  case (err xs e rest)
  then show ?thesis
    by (simp add: get_united_dict_def get_united_dict_store_error sequence_first_error)
qed

section \<open>The merge is defined on one or more chunk results\<close>

theorem get_united_dict_empty_raises: "get_united_dict [] = Inl IndexError"
  by (simp add: get_united_dict_eq)

text \<open>
  Claim C5, as the code has it. For a single chunk result the merge returns that result
  unchanged, be it a tuple or the exception of the task. For one or more results that are
  all tuples it returns a tuple: the first tuple with the later ones stored over it in
  task order. There is no result for an empty list: \<^verbatim>\<open>self.pools[0]\<close> raises
  \<^verbatim>\<open>IndexError\<close>, as shown above.
\<close>

theorem get_united_dict_nonempty:
  "get_united_dict [r] = r \<and> get_united_dict (map Inr (s # ss)) = Inr (foldl united s ss)"
proof
  show "get_united_dict [r] = r"
    by (cases r) (simp_all add: get_united_dict_eq)
  show "get_united_dict (map Inr (s # ss)) = Inr (foldl united s ss)"
    using get_united_dict_store_ok[of s ss] by (simp add: get_united_dict_def)
qed

section \<open>Sample runs\<close>

lemmas run_defs =
  get_statistics_def csv_reader_def titles_def py_dict_def Vacancy_init_def getitem_def
  sample_builtins_def digit_def decimal_def py_int_def trunc_def currency_to_rub_def
  parse_year_from_date_slice_def initial_def count_vacancy_def increment_def
  get_statistics_finish_def get_average_dict_def mean_def py_sum_def py_truediv_def py_mul_def
  to_float_def round_half_even_def

lemma chunk_a_statistics:
  "get_statistics sample_builtins ''Dev'' chunk_a =
     Inr ([(2020, 100)], [(2020, 1)], [(2020, 100)], [(2020, 1)])"
  by (simp add: chunk_a_def run_defs)

lemma chunk_b_statistics:
  "get_statistics sample_builtins ''Dev'' chunk_b =
     Inr ([(2020, 200)], [(2020, 1)], [(2020, 0)], [(2020, 0)])"
  by (simp add: chunk_b_def run_defs)

lemma chunk_c_statistics:
  "get_statistics sample_builtins ''Dev'' chunk_c =
     Inr ([(2021, 300)], [(2021, 1)], [(2021, 0)], [(2021, 0)])"
  by (simp add: chunk_c_def run_defs)

lemma chunk_e_statistics:
  "get_statistics sample_builtins ''Dev'' chunk_e =
     Inr ([(2020, 100), (2021, 300)], [(2020, 1), (2021, 1)], [(2020, 100)], [(2020, 1)])"
  by (simp add: chunk_e_def run_defs)

section \<open>The merged dicts\<close>

lemma tuple_item_united:
  "tuple_item (united a b) k = dict_update (tuple_item a k) (tuple_item b k)"
  by (cases a; cases b) simp

lemma tuple_item_foldl_united:
  "tuple_item (foldl united s ss) k =
     foldl dict_update (tuple_item s k) (map (\<lambda>c. tuple_item c k) ss)"
  by (induction ss arbitrary: s) (simp_all add: tuple_item_united)

lemma set_keys_foldl_dict_update:
  "set (keys (foldl dict_update d ds)) = set (keys d) \<union> (\<Union>e\<in>set ds. set (keys e))"
  by (induction ds arbitrary: d) (auto simp: set_keys_dict_update)

lemma map_of_None_keys: "map_of d x = None \<longleftrightarrow> x \<notin> set (keys d)"
  by (simp add: keys_def map_of_eq_None_iff)

lemma map_of_foldl_dict_update_last:
  assumes "\<And>e. e \<in> set ds \<Longrightarrow> wf_dict e"
      and "i < length (d # ds)"
      and "x \<in> set (keys ((d # ds) ! i))"
      and "\<And>j. i < j \<Longrightarrow> j < length (d # ds) \<Longrightarrow> x \<notin> set (keys ((d # ds) ! j))"
  shows "map_of (foldl dict_update d ds) x = map_of ((d # ds) ! i) x"
  using assms
proof (induction ds arbitrary: i rule: rev_induct)
  case Nil
  then show ?case by simp
next
  case (snoc e ds)
  have wf: "wf_dict e" using snoc.prems(1) by simp
  show ?case
  proof (cases "i = length (d # ds)")
    case True
    then have at: "(d # ds @ [e]) ! i = e"
      by (simp add: nth_append)
    then have "x \<in> set (keys e)" using snoc.prems(3) by simp
    then obtain v where "map_of e x = Some v"
      using map_of_None_keys[of e x] by (cases "map_of e x") auto
    then show ?thesis using at wf by (simp add: map_of_dict_update_wf)
  next
    case False
    then have i: "i < length (d # ds)" using snoc.prems(2) by simp
    then have at: "(d # ds @ [e]) ! i = (d # ds) ! i"
      using nth_append[of "d # ds" "[e]" i] by simp
    have "(d # ds @ [e]) ! length (d # ds) = e"
      using nth_append_length[of "d # ds" e "[]"] by simp
    then have "x \<notin> set (keys e)"
      using snoc.prems(4)[of "length (d # ds)"] i by simp
    then have none: "map_of e x = None" by (simp add: map_of_None_keys)
    have "map_of (foldl dict_update d ds) x = map_of ((d # ds) ! i) x"
    proof (rule snoc.IH)
      show "wf_dict e'" if "e' \<in> set ds" for e' using that snoc.prems(1) by simp
      show "i < length (d # ds)" by (rule i)
      show "x \<in> set (keys ((d # ds) ! i))" using snoc.prems(3) at by simp
      show "x \<notin> set (keys ((d # ds) ! j))" if "i < j" "j < length (d # ds)" for j
      proof -
        have "(d # ds @ [e]) ! j = (d # ds) ! j"
          using nth_append[of "d # ds" "[e]" j] that by simp
        then show ?thesis using snoc.prems(4)[of j] that by simp
      qed
    qed
    then show ?thesis using at wf none by (simp add: map_of_dict_update_wf)
  qed
qed

section \<open>The merge stores later chunks over earlier ones\<close>

text \<open>
  Claim C10. Let \<open>cs\<close> be the tuples of one or more tasks that all succeeded (the claim
  asks for two or more), their dicts with distinct keys as every Python dict has.
  \<^verbatim>\<open>get_united_dict\<close> returns a tuple \<open>r\<close> such that, for each of the four positions \<open>k\<close>:
  the keys of \<open>r[k]\<close> are the union of the keys of the chunks' dicts at \<open>k\<close>, and a key has
  in \<open>r[k]\<close> the value it has in the last chunk, in task order, whose dict holds it.
  The tuple returned is the object in slot 0 of the store, changed in place; the other
  slots are as they were.
\<close>

theorem get_united_dict_last_wins:
  assumes "cs \<noteq> []"
      and "\<forall>c\<in>set cs. \<forall>k<4. wf_dict (tuple_item c k)"
  shows "\<exists>r. get_united_dict_store (map Inr cs) = Inr (r, Inr r # tl (map Inr cs)) \<and>
           (\<forall>k<4. set (keys (tuple_item r k)) = (\<Union>c\<in>set cs. set (keys (tuple_item c k)))) \<and>
           (\<forall>k<4. \<forall>i<length cs. \<forall>x\<in>set (keys (tuple_item (cs ! i) k)).
              (\<forall>j. i < j \<and> j < length cs \<longrightarrow> x \<notin> set (keys (tuple_item (cs ! j) k))) \<longrightarrow>
              map_of (tuple_item r k) x = map_of (tuple_item (cs ! i) k) x)"
proof -
  obtain s ss where cs: "cs = s # ss" using assms(1) by (cases cs) auto
  let ?r = "foldl united s ss"
  have store: "get_united_dict_store (map Inr cs) = Inr (?r, Inr ?r # tl (map Inr cs))"
    using get_united_dict_store_ok[of s ss] cs by simp
  have keys: "set (keys (tuple_item ?r k)) = (\<Union>c\<in>set cs. set (keys (tuple_item c k)))" for k
    by (simp add: tuple_item_foldl_united set_keys_foldl_dict_update cs)
  have last: "map_of (tuple_item ?r k) x = map_of (tuple_item (cs ! i) k) x"
    if k: "k < 4" and i: "i < length cs" and x: "x \<in> set (keys (tuple_item (cs ! i) k))"
      and later: "\<forall>j. i < j \<and> j < length cs \<longrightarrow> x \<notin> set (keys (tuple_item (cs ! j) k))"
    for k i x
  proof -
    let ?d = "tuple_item s k" and ?ds = "map (\<lambda>c. tuple_item c k) ss"
    have nth: "(?d # ?ds) ! j = tuple_item (cs ! j) k" if "j < length cs" for j
      using that nth_map[of j cs "\<lambda>c. tuple_item c k"] by (simp add: cs)
    have "map_of (foldl dict_update ?d ?ds) x = map_of ((?d # ?ds) ! i) x"
    proof (rule map_of_foldl_dict_update_last)
      show "wf_dict e" if "e \<in> set ?ds" for e
        using that assms(2) k by (auto simp: cs)
      show "i < length (?d # ?ds)" using i by (simp add: cs)
      show "x \<in> set (keys ((?d # ?ds) ! i))" using x nth[OF i] by simp
      show "x \<notin> set (keys ((?d # ?ds) ! j))" if "i < j" "j < length (?d # ?ds)" for j
      proof -
        have j: "j < length cs" using that by (simp add: cs)
        show ?thesis using later that j nth[OF j] by simp
      qed
    qed
    then show ?thesis using nth[OF i] by (simp add: tuple_item_foldl_united)
  qed
  show ?thesis
    using store keys last by blast
qed

theorem get_united_dict_last_wins_witness:
  "\<exists>r. get_united_dict_store (map (get_statistics sample_builtins ''Dev'') [chunk_a, chunk_b, chunk_c]) =
          Inr (r, Inr r # map (get_statistics sample_builtins ''Dev'') [chunk_b, chunk_c]) \<and>
        set (keys (tuple_item r 0)) = {2020, 2021} \<and>
        map_of (tuple_item r 0) 2020 = Some 200"
proof -
  let ?a = "([(2020, 100)], [(2020, 1)], [(2020, 100)], [(2020, 1)]) :: statistics"
  let ?b = "([(2020, 200)], [(2020, 1)], [(2020, 0)], [(2020, 0)]) :: statistics"
  let ?c = "([(2021, 300)], [(2021, 1)], [(2021, 0)], [(2021, 0)]) :: statistics"
  let ?cs = "[?a, ?b, ?c]"
  have run: "map (get_statistics sample_builtins ''Dev'') [chunk_a, chunk_b, chunk_c] = map Inr ?cs"
    by (simp add: chunk_a_statistics chunk_b_statistics chunk_c_statistics)
  have ne: "?cs \<noteq> []" by simp
  have wf: "\<forall>c\<in>set ?cs. \<forall>k<4. wf_dict (tuple_item c k)"
    by (simp add: wf_dict_def keys_def)
  from get_united_dict_last_wins[OF ne wf] obtain r where
    store: "get_united_dict_store (map Inr ?cs) = Inr (r, Inr r # tl (map Inr ?cs))" and
    keys: "\<forall>k<4. set (keys (tuple_item r k)) = (\<Union>c\<in>set ?cs. set (keys (tuple_item c k)))" and
    last: "\<forall>k<4. \<forall>i<length ?cs. \<forall>x\<in>set (keys (tuple_item (?cs ! i) k)).
              (\<forall>j. i < j \<and> j < length ?cs \<longrightarrow> x \<notin> set (keys (tuple_item (?cs ! j) k))) \<longrightarrow>
              map_of (tuple_item r k) x = map_of (tuple_item (?cs ! i) k) x"
    by blast
  have k0: "set (keys (tuple_item r 0)) = {2020, 2021}"
    using keys[rule_format, of 0] by (auto simp: keys_def)
  have later: "\<forall>j. 1 < j \<and> j < length ?cs \<longrightarrow> 2020 \<notin> set (keys (tuple_item (?cs ! j) 0))"
  proof (intro allI impI)
    fix j :: nat assume "1 < j \<and> j < length ?cs"
    then have "j = 2" by simp
    then show "2020 \<notin> set (keys (tuple_item (?cs ! j) 0))" by (simp add: keys_def)
  qed
  have "map_of (tuple_item r 0) 2020 = map_of (tuple_item (?cs ! 1) 0) 2020"
    using last[rule_format, of 0 1 2020] later by (simp add: keys_def)
  then have v: "map_of (tuple_item r 0) 2020 = Some 200" by simp
  show ?thesis using store k0 v run by (intro exI[of _ r]) simp
qed

section \<open>The merge works on finalized dicts, not on the lists of salaries\<close>

lemma keys_concat: "set (keys (concat ds)) = (\<Union>e\<in>set ds. set (keys e))"
  by (induction ds) (auto simp: keys_def)

lemma keys_Cons_nth_snoc:
  "i < length (d # ds) \<Longrightarrow> (d # ds @ [e]) ! i = (d # ds) ! i"
  using nth_append[of "d # ds" "[e]" i] by simp

lemma foldl_dict_update_disjoint:
  assumes "\<And>e. e \<in> set ds \<Longrightarrow> wf_dict e"
      and "\<And>i j. i < j \<Longrightarrow> j < length (d # ds) \<Longrightarrow>
             set (keys ((d # ds) ! i)) \<inter> set (keys ((d # ds) ! j)) = {}"
  shows "foldl dict_update d ds = concat (d # ds)"
  using assms
proof (induction ds rule: rev_induct)
  case Nil
  show ?case by simp
next
  case (snoc e ds)
  have IH: "foldl dict_update d ds = concat (d # ds)"
  proof (rule snoc.IH)
    show "wf_dict e'" if "e' \<in> set ds" for e' using that snoc.prems(1) by simp
    show "set (keys ((d # ds) ! i)) \<inter> set (keys ((d # ds) ! j)) = {}"
      if "i < j" "j < length (d # ds)" for i j
    proof -
      have i: "i < length (d # ds)" using that by linarith
      have "set (keys ((d # ds @ [e]) ! i)) \<inter> set (keys ((d # ds @ [e]) ! j)) = {}"
      proof (rule snoc.prems(2))
        show "i < j" by (rule that(1))
        show "j < length (d # ds @ [e])" using that(2) by simp
      qed
      then show ?thesis
        by (simp only: keys_Cons_nth_snoc[OF i] keys_Cons_nth_snoc[OF that(2)])
    qed
  qed
  have last: "(d # ds @ [e]) ! length (d # ds) = e"
    using nth_append_length[of "d # ds" e "[]"] by simp
  have disj: "set (keys c) \<inter> set (keys e) = {}" if "c \<in> set (d # ds)" for c
  proof -
    from that obtain i where i: "i < length (d # ds)" "(d # ds) ! i = c"
      by (metis in_set_conv_nth)
    have "set (keys ((d # ds @ [e]) ! i)) \<inter> set (keys ((d # ds @ [e]) ! length (d # ds))) = {}"
    proof (rule snoc.prems(2))
      show "i < length (d # ds)" by (rule i(1))
      show "length (d # ds) < length (d # ds @ [e])" by simp
    qed
    then show ?thesis
      by (simp only: keys_Cons_nth_snoc[OF i(1)] last i(2))
  qed
  have inter: "set (keys (concat (d # ds))) \<inter> set (keys e) = {}"
  proof (rule ccontr)
    assume "set (keys (concat (d # ds))) \<inter> set (keys e) \<noteq> {}"
    then obtain x where x: "x \<in> set (keys (concat (d # ds)))" "x \<in> set (keys e)" by blast
    from x(1) obtain c where c: "c \<in> set (d # ds)" "x \<in> set (keys c)"
      unfolding keys_concat by blast
    then show False using disj[OF c(1)] x(2) by blast
  qed
  have wf: "wf_dict e" using snoc.prems(1) by simp
  have "dict_update (concat (d # ds)) e = concat (d # ds) @ e"
    using wf inter by (rule dict_update_disjoint)
  then show ?case using IH by simp
qed

text \<open>
  Two chunks with a vacancy each in 2020, salaries 100 and 200. The code averages per
  chunk and then lets the second chunk overwrite the first: 2020 has the average 200 and
  one vacancy. Concatenating the lists before averaging, as the specification words the
  merge, gives the average 150 and two vacancies.
\<close>

theorem merge_is_not_concatenation:
  "process_input sample_builtins ''Dev'' [chunk_a, chunk_b] =
     Inr ([(2020, 200)], [(2020, 1)], [(2020, 0)], [(2020, 0)]) \<and>
   spec_process_input sample_builtins ''Dev'' [chunk_a, chunk_b] =
     Inr ([(2020, 150)], [(2020, 2)], [(2020, 100)], [(2020, 1)])"
proof
  show "process_input sample_builtins ''Dev'' [chunk_a, chunk_b] =
     Inr ([(2020, 200)], [(2020, 1)], [(2020, 0)], [(2020, 0)])"
    by (simp add: process_input_def chunk_a_statistics chunk_b_statistics get_united_dict_eq)
  show "spec_process_input sample_builtins ''Dev'' [chunk_a, chunk_b] =
     Inr ([(2020, 150)], [(2020, 2)], [(2020, 100)], [(2020, 1)])"
    by (simp add: spec_process_input_def spec_merged_accumulator_def spec_merge_def
        chunk_a_def chunk_b_def run_defs)
qed

text \<open>
  Claim C1, as the code has it. The merge combines the finalized dicts of the chunks, by
  \<^verbatim>\<open>dict.update\<close>; no lists are concatenated. When no key occurs in the dicts of two
  different chunks (one year per chunk file), each of the four merged dicts is the chunks'
  dicts one after the other in task order: every entry of every chunk is there once and
  unchanged.
\<close>

theorem get_united_dict_disjoint_chunks:
  assumes "cs \<noteq> []"
      and "\<forall>c\<in>set cs. \<forall>k<4. wf_dict (tuple_item c k)"
      and "\<forall>k<4. \<forall>i j. i < j \<and> j < length cs \<longrightarrow>
             set (keys (tuple_item (cs ! i) k)) \<inter> set (keys (tuple_item (cs ! j) k)) = {}"
  shows "\<exists>r. get_united_dict (map Inr cs) = Inr r \<and>
           (\<forall>k<4. tuple_item r k = concat (map (\<lambda>c. tuple_item c k) cs))"
proof -
  obtain s ss where cs: "cs = s # ss" using assms(1) by (cases cs) auto
  let ?r = "foldl united s ss"
  have res: "get_united_dict (map Inr cs) = Inr ?r"
    using get_united_dict_store_ok[of s ss] cs by (simp add: get_united_dict_def)
  have "tuple_item ?r k = concat (map (\<lambda>c. tuple_item c k) cs)" if k: "k < 4" for k
  proof -
    let ?d = "tuple_item s k" and ?ds = "map (\<lambda>c. tuple_item c k) ss"
    have nth: "(?d # ?ds) ! j = tuple_item (cs ! j) k" if "j < length cs" for j
      using that nth_map[of j cs "\<lambda>c. tuple_item c k"] by (simp add: cs)
    have "foldl dict_update ?d ?ds = concat (?d # ?ds)"
    proof (rule foldl_dict_update_disjoint)
      show "wf_dict e" if "e \<in> set ?ds" for e
        using that assms(2) k by (auto simp: cs)
      show "set (keys ((?d # ?ds) ! i)) \<inter> set (keys ((?d # ?ds) ! j)) = {}"
        if "i < j" "j < length (?d # ?ds)" for i j
      proof -
        have j: "j < length cs" and i: "i < length cs" using that by (simp_all add: cs)
        show ?thesis using assms(3) k that j nth[OF j] nth[OF i] by simp
      qed
    qed
    then show ?thesis by (simp add: tuple_item_foldl_united cs)
  qed
  then show ?thesis using res by blast
qed

theorem get_united_dict_disjoint_chunks_witness:
  "\<exists>r. get_united_dict (map (get_statistics sample_builtins ''Dev'') [chunk_a, chunk_c]) = Inr r \<and>
        tuple_item r 0 = [(2020, 100), (2021, 300)] \<and>
        tuple_item r 1 = [(2020, 1), (2021, 1)] \<and>
        tuple_item r 2 = [(2020, 100), (2021, 0)] \<and>
        tuple_item r 3 = [(2020, 1), (2021, 0)]"
proof -
  let ?a = "([(2020, 100)], [(2020, 1)], [(2020, 100)], [(2020, 1)]) :: statistics"
  let ?c = "([(2021, 300)], [(2021, 1)], [(2021, 0)], [(2021, 0)]) :: statistics"
  let ?cs = "[?a, ?c]"
  have run: "map (get_statistics sample_builtins ''Dev'') [chunk_a, chunk_c] = map Inr ?cs"
    by (simp add: chunk_a_statistics chunk_c_statistics)
  have ne: "?cs \<noteq> []" by simp
  have wf: "\<forall>c\<in>set ?cs. \<forall>k<4. wf_dict (tuple_item c k)"
    by (simp add: wf_dict_def keys_def)
  have disj: "\<forall>k<4. \<forall>i j. i < j \<and> j < length ?cs \<longrightarrow>
             set (keys (tuple_item (?cs ! i) k)) \<inter> set (keys (tuple_item (?cs ! j) k)) = {}"
  proof (intro allI impI)
    fix k i j :: nat assume "k < 4" "i < j \<and> j < length ?cs"
    then have "i = 0" "j = 1" by simp_all
    then show "set (keys (tuple_item (?cs ! i) k)) \<inter> set (keys (tuple_item (?cs ! j) k)) = {}"
      by (simp add: keys_def)
  qed
  from get_united_dict_disjoint_chunks[OF ne wf disj] obtain r where
    r: "get_united_dict (map Inr ?cs) = Inr r"
    and items: "\<forall>k<4. tuple_item r k = concat (map (\<lambda>c. tuple_item c k) ?cs)"
    by blast
  have "tuple_item r 0 = [(2020, 100), (2021, 300)]" "tuple_item r 1 = [(2020, 1), (2021, 1)]"
    "tuple_item r 2 = [(2020, 100), (2021, 0)]" "tuple_item r 3 = [(2020, 1), (2021, 0)]"
    using items[rule_format, of 0] items[rule_format, of 1] items[rule_format, of 2]
      items[rule_format, of 3] by simp_all
  then show ?thesis using r run by (intro exI[of _ r]) simp
qed

section \<open>The order of the chunks in the merge\<close>

lemma map_of_foldl_dict_update_agree:
  assumes "\<And>e. e \<in> set ds \<Longrightarrow> wf_dict e"
      and "\<And>e e' v v'. e \<in> set (d # ds) \<Longrightarrow> e' \<in> set (d # ds) \<Longrightarrow>
             map_of e x = Some v \<Longrightarrow> map_of e' x = Some v' \<Longrightarrow> v = v'"
  shows "map_of (foldl dict_update d ds) x = Some v \<longleftrightarrow> (\<exists>e\<in>set (d # ds). map_of e x = Some v)"
  using assms
proof (induction ds rule: rev_induct)
  case Nil
  show ?case by simp
next
  case (snoc e ds)
  have wf: "wf_dict e" using snoc.prems(1) by simp
  have IH: "map_of (foldl dict_update d ds) x = Some v \<longleftrightarrow> (\<exists>e\<in>set (d # ds). map_of e x = Some v)"
  proof (rule snoc.IH)
    show "wf_dict e'" if "e' \<in> set ds" for e' using that snoc.prems(1) by simp
    show "v1 = v2" if "e1 \<in> set (d # ds)" "e2 \<in> set (d # ds)"
      "map_of e1 x = Some v1" "map_of e2 x = Some v2" for e1 e2 v1 v2
      using that snoc.prems(2)[of e1 e2 v1 v2] by auto
  qed
  show ?case
  proof (cases "map_of e x")
    case None
    then show ?thesis using wf IH by (auto simp: map_of_dict_update_wf)
  next
    case (Some w)
    have "w = v" if "e' \<in> set (d # ds @ [e])" "map_of e' x = Some v" for e'
      using snoc.prems(2)[of e e' w v] that Some by simp
    then show ?thesis using wf Some by (auto simp: map_of_dict_update_wf)
  qed
qed

text \<open>
  The same two chunks in the two orders: the chunk merged last decides the year 2020.
\<close>

theorem merge_order_matters:
  "process_input sample_builtins ''Dev'' [chunk_a, chunk_b] =
     Inr ([(2020, 200)], [(2020, 1)], [(2020, 0)], [(2020, 0)]) \<and>
   process_input sample_builtins ''Dev'' [chunk_b, chunk_a] =
     Inr ([(2020, 100)], [(2020, 1)], [(2020, 100)], [(2020, 1)])"
  by (simp add: process_input_def chunk_a_statistics chunk_b_statistics get_united_dict_eq)

text \<open>
  Claim C2, as the code has it. Merging is associative: merging the outcomes \<open>A\<close>, \<open>B\<close>,
  \<open>C\<close> at once is merging the merge of \<open>A\<close> and \<open>B\<close> with \<open>C\<close>, exceptions included.
  It is commutative for chunks that agree on the keys they share, in particular for
  chunks with no shared key: if no two tuples of \<open>cs\<close> give one key two values, then
  merging \<open>cs\<close> in any order, that is merging any list \<open>cs'\<close> of the same tuples, gives
  the same mappings. (The order of the keys inside the dicts follows the task order.)
\<close>

theorem get_united_dict_assoc_and_order:
  assumes "cs \<noteq> []" and "set cs' = set cs"
      and "\<forall>c\<in>set cs. \<forall>k<4. wf_dict (tuple_item c k)"
      and "\<forall>c\<in>set cs. \<forall>c'\<in>set cs. \<forall>k<4. \<forall>x v v'.
             map_of (tuple_item c k) x = Some v \<longrightarrow> map_of (tuple_item c' k) x = Some v' \<longrightarrow> v = v'"
  shows "get_united_dict [get_united_dict [A, B], C] = get_united_dict [A, B, C] \<and>
         (\<exists>r r'. get_united_dict (map Inr cs) = Inr r \<and> get_united_dict (map Inr cs') = Inr r' \<and>
                 (\<forall>k<4. map_of (tuple_item r' k) = map_of (tuple_item r k)))"
proof
  show "get_united_dict [get_united_dict [A, B], C] = get_united_dict [A, B, C]"
    by (cases A; cases B; cases C) (simp_all add: get_united_dict_eq)
next
  have merged: "\<exists>r. get_united_dict (map Inr ds) = Inr r \<and>
      (\<forall>k<4. \<forall>x v. map_of (tuple_item r k) x = Some v \<longleftrightarrow>
         (\<exists>c\<in>set cs. map_of (tuple_item c k) x = Some v))"
    if ds: "ds \<noteq> []" "set ds = set cs" for ds
  proof -
    obtain s ss where sss: "ds = s # ss" using ds(1) by (cases ds) auto
    let ?r = "foldl united s ss"
    have res: "get_united_dict (map Inr ds) = Inr ?r"
      using get_united_dict_store_ok[of s ss] sss by (simp add: get_united_dict_def)
    have "map_of (tuple_item ?r k) x = Some v \<longleftrightarrow>
         (\<exists>c\<in>set cs. map_of (tuple_item c k) x = Some v)" if k: "k < 4" for k x v
    proof -
      let ?d = "tuple_item s k" and ?ds = "map (\<lambda>c. tuple_item c k) ss"
      have img: "set (?d # ?ds) = (\<lambda>c. tuple_item c k) ` set cs"
        using ds(2) sss by auto
      have "map_of (foldl dict_update ?d ?ds) x = Some v \<longleftrightarrow>
            (\<exists>e\<in>set (?d # ?ds). map_of e x = Some v)"
      proof (rule map_of_foldl_dict_update_agree)
        show "wf_dict e" if "e \<in> set ?ds" for e
          using that assms(3) k ds(2) sss by auto
        show "v1 = v2" if "e1 \<in> set (?d # ?ds)" "e2 \<in> set (?d # ?ds)"
          "map_of e1 x = Some v1" "map_of e2 x = Some v2" for e1 e2 v1 v2
        proof -
          from that(1,2) obtain c1 c2 where
            c: "c1 \<in> set cs" "e1 = tuple_item c1 k" "c2 \<in> set cs" "e2 = tuple_item c2 k"
            unfolding img by blast
          show ?thesis using assms(4) c k that(3,4) by blast
        qed
      qed
      then show ?thesis unfolding img by (simp add: tuple_item_foldl_united)
    qed
    then show ?thesis using res by blast
  qed
  have ne': "cs' \<noteq> []" using assms(1,2) by auto
  obtain r where r: "get_united_dict (map Inr cs) = Inr r"
    "\<forall>k<4. \<forall>x v. map_of (tuple_item r k) x = Some v \<longleftrightarrow>
         (\<exists>c\<in>set cs. map_of (tuple_item c k) x = Some v)"
    using merged[OF assms(1) refl] by blast
  obtain r' where r': "get_united_dict (map Inr cs') = Inr r'"
    "\<forall>k<4. \<forall>x v. map_of (tuple_item r' k) x = Some v \<longleftrightarrow>
         (\<exists>c\<in>set cs. map_of (tuple_item c k) x = Some v)"
    using merged[OF ne' assms(2)] by blast
  have "map_of (tuple_item r' k) = map_of (tuple_item r k)" if k: "k < 4" for k
  proof
    fix x
    have eq: "map_of (tuple_item r' k) x = Some v \<longleftrightarrow> map_of (tuple_item r k) x = Some v" for v
      using r(2)[rule_format, OF k, of x v] r'(2)[rule_format, OF k, of x v] by (rule ssubst)
    show "map_of (tuple_item r' k) x = map_of (tuple_item r k) x"
    proof (cases "map_of (tuple_item r' k) x")
      case None
      show ?thesis
      proof (cases "map_of (tuple_item r k) x")
        case None': None
        then show ?thesis using None by simp
      next
        case (Some a)
        then show ?thesis using eq[of a] None by simp
      qed
    next
      case (Some v)
      then show ?thesis using eq[of v] by simp
    qed
  qed
  then show "\<exists>r r'. get_united_dict (map Inr cs) = Inr r \<and> get_united_dict (map Inr cs') = Inr r' \<and>
                 (\<forall>k<4. map_of (tuple_item r' k) = map_of (tuple_item r k))"
    using r(1) r'(1) by blast
qed

theorem get_united_dict_assoc_and_order_witness:
  "get_united_dict
     [get_united_dict [get_statistics sample_builtins ''Dev'' chunk_a,
                       get_statistics sample_builtins ''Dev'' chunk_b],
      get_statistics sample_builtins ''Dev'' chunk_c] =
   get_united_dict (map (get_statistics sample_builtins ''Dev'') [chunk_a, chunk_b, chunk_c]) \<and>
   (\<exists>r r'. get_united_dict (map (get_statistics sample_builtins ''Dev'') [chunk_a, chunk_c]) = Inr r \<and>
           get_united_dict (map (get_statistics sample_builtins ''Dev'') [chunk_c, chunk_a]) = Inr r' \<and>
           map_of (tuple_item r' 0) = map_of (tuple_item r 0) \<and>
           map_of (tuple_item r' 2) = map_of (tuple_item r 2))"
proof -
  let ?a = "([(2020, 100)], [(2020, 1)], [(2020, 100)], [(2020, 1)]) :: statistics"
  let ?c = "([(2021, 300)], [(2021, 1)], [(2021, 0)], [(2021, 0)]) :: statistics"
  let ?cs = "[?a, ?c]" and ?cs' = "[?c, ?a]"
  have run: "map (get_statistics sample_builtins ''Dev'') [chunk_a, chunk_c] = map Inr ?cs"
    "map (get_statistics sample_builtins ''Dev'') [chunk_c, chunk_a] = map Inr ?cs'"
    by (simp_all add: chunk_a_statistics chunk_c_statistics)
  have ne: "?cs \<noteq> []" by simp
  have perm: "set ?cs' = set ?cs" by auto
  have wf: "\<forall>c\<in>set ?cs. \<forall>k<4. wf_dict (tuple_item c k)"
    by (simp add: wf_dict_def keys_def)
  have agree: "\<forall>c\<in>set ?cs. \<forall>c'\<in>set ?cs. \<forall>k<4. \<forall>x v v'.
             map_of (tuple_item c k) x = Some v \<longrightarrow> map_of (tuple_item c' k) x = Some v' \<longrightarrow> v = v'"
    by (auto split: if_splits)
  note inst = get_united_dict_assoc_and_order[OF ne perm wf agree,
      of "get_statistics sample_builtins ''Dev'' chunk_a"
         "get_statistics sample_builtins ''Dev'' chunk_b"
         "get_statistics sample_builtins ''Dev'' chunk_c"]
  from inst obtain r r' where
    r: "get_united_dict (map Inr ?cs) = Inr r" "get_united_dict (map Inr ?cs') = Inr r'"
    and eq: "\<forall>k<4. map_of (tuple_item r' k) = map_of (tuple_item r k)"
    by blast
  have "map_of (tuple_item r' 0) = map_of (tuple_item r 0)"
    "map_of (tuple_item r' 2) = map_of (tuple_item r 2)"
    using eq by simp_all
  then have "\<exists>r r'. get_united_dict (map (get_statistics sample_builtins ''Dev'') [chunk_a, chunk_c]) = Inr r \<and>
           get_united_dict (map (get_statistics sample_builtins ''Dev'') [chunk_c, chunk_a]) = Inr r' \<and>
           map_of (tuple_item r' 0) = map_of (tuple_item r 0) \<and>
           map_of (tuple_item r' 2) = map_of (tuple_item r 2)"
    using r unfolding run by blast
  then show ?thesis using inst by simp
qed

section \<open>The averages of \<^verbatim>\<open>get_average_dict\<close>\<close>

lemma bind_Inr_iff: "bind m f = Inr y \<longleftrightarrow> (\<exists>x. m = Inr x \<and> f x = Inr y)"
  by (cases m) simp_all

lemma not_Inr_is_Inl: "(\<forall>y. r \<noteq> Inr y) \<Longrightarrow> \<exists>e. r = Inl e"
  by (cases r) simp_all

lemma average_loop_finite:
  assumes "distinct (keys result @ keys data)"
      and "\<And>key xs. (key, xs) \<in> set data \<Longrightarrow> mean py xs = Inr (Finite (q key))"
  shows "average_loop py data result =
           Inr (result @ map (\<lambda>(key, xs). (key, trunc (q key))) data)"
  using assms
proof (induction data arbitrary: result)
  case Nil
  show ?case by simp
next
  case (Cons p data)
  obtain key xs where p: "p = (key, xs)" by (cases p)
  have xs: "mean py xs = Inr (Finite (q key))" using Cons.prems(2)[of key xs] p by simp
  have fresh: "key \<notin> set (keys result)" using Cons.prems(1) p by (auto simp: keys_def)
  have "average_loop py data (result @ [(key, trunc (q key))]) =
          Inr ((result @ [(key, trunc (q key))]) @ map (\<lambda>(key, xs). (key, trunc (q key))) data)"
  proof (rule Cons.IH)
    show "distinct (keys (result @ [(key, trunc (q key))]) @ keys data)"
      using Cons.prems(1) p by (auto simp: keys_def)
    show "mean py ys = Inr (Finite (q k))" if "(k, ys) \<in> set data" for k ys
      using Cons.prems(2)[of k ys] that by simp
  qed
  then show ?case using p xs fresh by (simp add: setitem_fresh py_int_def)
qed

lemma average_loop_keys:
  assumes "distinct (keys result @ keys data)" and "average_loop py data result = Inr r"
  shows "keys r = keys result @ keys data"
  using assms
proof (induction data arbitrary: result)
  case Nil
  then show ?case by (simp add: keys_def)
next
  case (Cons p data)
  obtain key xs where p: "p = (key, xs)" by (cases p)
  obtain average where step: "average_loop py data (setitem result key average) = Inr r"
    using Cons.prems(2) unfolding p by (auto simp: bind_Inr_iff)
  have fresh: "key \<notin> set (keys result)" using Cons.prems(1) p by (auto simp: keys_def)
  have "keys r = keys (result @ [(key, average)]) @ keys data"
  proof (rule Cons.IH)
    show "distinct (keys (result @ [(key, average)]) @ keys data)"
      using Cons.prems(1) p by (auto simp: keys_def)
    show "average_loop py data (result @ [(key, average)]) = Inr r"
      using step fresh by (simp add: setitem_fresh)
  qed
  then show ?case by (simp add: p keys_def)
qed

lemma average_loop_error:
  assumes "(key, xs) \<in> set data" and "mean py xs = Inr x" and "x \<notin> range Finite"
  shows "\<exists>e. average_loop py data result = Inl e"
  using assms(1)
proof (induction data arbitrary: result)
  case Nil
  then show ?case by simp
next
  case (Cons p data)
  obtain k ys where p: "p = (k, ys)" by (cases p)
  have refused: "\<exists>e. py_int x = Inl e"
    using assms(3) by (cases x) (auto simp: py_int_def)
  show ?case
  proof (rule not_Inr_is_Inl, intro allI notI)
    fix r assume "average_loop py (p # data) result = Inr r"
    then obtain quotient average where step: "mean py ys = Inr quotient"
      "py_int quotient = Inr average" "average_loop py data (setitem result k average) = Inr r"
      unfolding p by (auto simp: bind_Inr_iff)
    show False
    proof (cases "(key, xs) = p")
      case True
      then show ?thesis using step(1,2) assms(2) refused p by auto
    next
      case False
      then have "(key, xs) \<in> set data" using Cons.prems by auto
      then show ?thesis using Cons.IH[of "setitem result k average"] step(3) by auto
    qed
  qed
qed

lemma floor_rat_numeral: "\<lfloor>numeral a / numeral b :: rat\<rfloor> = numeral a div numeral b"
  using floor_divide_of_int_eq[of "numeral a" "numeral b", where ?'a = rat] by simp

lemma floor_rat_neg_numeral: "\<lfloor>- (numeral a / numeral b) :: rat\<rfloor> = - numeral a div numeral b"
  using floor_divide_of_int_eq[of "- numeral a" "numeral b", where ?'a = rat] by simp

lemma ceiling_rat_numeral: "\<lceil>numeral a / numeral b :: rat\<rceil> = - (- numeral a div numeral b)"
  by (simp add: ceiling_def floor_rat_neg_numeral)

lemma ceiling_rat_neg_numeral: "\<lceil>- (numeral a / numeral b) :: rat\<rceil> = - (numeral a div numeral b)"
  by (simp add: ceiling_def floor_rat_numeral)

lemmas rat_floors =
  floor_rat_numeral floor_rat_neg_numeral ceiling_rat_numeral ceiling_rat_neg_numeral

lemma trunc_floor: "0 \<le> q \<Longrightarrow> trunc q = \<lfloor>q\<rfloor>"
  by (simp add: trunc_def)

lemmas mean_defs = mean_def py_sum_def py_truediv_def to_float_def sample_builtins_def

text \<open>
  A list with a negative sum: the quotient is -1.5, \<^verbatim>\<open>int(-1.5)\<close> is -1 and the floor of
  -1.5 is -2.
\<close>

theorem get_average_dict_negative:
  "mean sample_builtins [PyInt (- 3), PyInt 0] = Inr (Finite (- 3 / 2)) \<and>
   get_average_dict sample_builtins [(1 :: int, [PyInt (- 3), PyInt 0])] = Inr [(1, - 1)] \<and>
   \<lfloor>- 3 / 2 :: rat\<rfloor> = - 2"
  by (simp add: get_average_dict_def mean_defs py_int_def trunc_def rat_floors)

text \<open>
  Claim C6, as the code has it. Let \<^verbatim>\<open>sum(list) / len(list)\<close>, the quotient that Python
  computes in floats, be a finite float for every list of the dict (which no empty list
  gives). Then \<^verbatim>\<open>get_average_dict\<close> maps every key to the quotient of its list truncated
  toward zero, as \<^verbatim>\<open>int\<close> does, and that is the floor of the quotient whenever the quotient
  is not negative. When the quotient of some list is an infinity or NaN, \<^verbatim>\<open>int\<close> refuses
  it and \<^verbatim>\<open>get_average_dict\<close> raises.
\<close>

theorem get_average_dict_truncates:
  "(wf_dict data \<and> (\<forall>(key, xs)\<in>set data. mean py xs = Inr (Finite (q key))) \<longrightarrow>
      get_average_dict py data = Inr (map (\<lambda>(key, xs). (key, trunc (q key))) data) \<and>
      (\<forall>(key, xs)\<in>set data. 0 \<le> q key \<longrightarrow> trunc (q key) = \<lfloor>q key\<rfloor>)) \<and>
   ((key, xs) \<in> set data \<and> mean py xs = Inr x \<and> x \<notin> range Finite \<longrightarrow>
      (\<exists>e. get_average_dict py data = Inl e))"
proof (intro conjI impI)
  assume h: "wf_dict data \<and> (\<forall>(key, xs)\<in>set data. mean py xs = Inr (Finite (q key)))"
  have "average_loop py data [] = Inr ([] @ map (\<lambda>(key, xs). (key, trunc (q key))) data)"
  proof (rule average_loop_finite)
    show "distinct (keys [] @ keys data)" using h by (simp add: wf_dict_def keys_def)
    show "mean py xs = Inr (Finite (q key))" if "(key, xs) \<in> set data" for key xs
      using h that by auto
  qed
  then show "get_average_dict py data = Inr (map (\<lambda>(key, xs). (key, trunc (q key))) data)"
    by (simp add: get_average_dict_def)
  show "\<forall>(key, xs)\<in>set data. 0 \<le> q key \<longrightarrow> trunc (q key) = \<lfloor>q key\<rfloor>"
    by (auto intro!: trunc_floor)
next
  assume "(key, xs) \<in> set data \<and> mean py xs = Inr x \<and> x \<notin> range Finite"
  then show "\<exists>e. get_average_dict py data = Inl e"
    unfolding get_average_dict_def using average_loop_error[of key xs data py x "[]"] by blast
qed

text \<open>
  The example of the docstring of \<^verbatim>\<open>get_average_dict\<close>, with the quotients 3.5 and 4.5, and
  a list that holds NaN.
\<close>

theorem get_average_dict_truncates_witness:
  "get_average_dict sample_builtins [(1 :: int, [PyInt 2, PyInt 5]), (2, [PyInt 3, PyInt 6])] =
     Inr [(1, 3), (2, 4)] \<and>
   \<lfloor>7 / 2 :: rat\<rfloor> = 3 \<and>
   (\<exists>e. get_average_dict sample_builtins [(1 :: int, [PyFloat NaN])] = Inl e)"
proof -
  let ?data = "[(1 :: int, [PyInt 2, PyInt 5]), (2, [PyInt 3, PyInt 6])]"
  let ?q = "\<lambda>key :: int. if key = 1 then 7 / 2 else 9 / 2 :: rat"
  have h: "wf_dict ?data \<and> (\<forall>(key, xs)\<in>set ?data. mean sample_builtins xs = Inr (Finite (?q key)))"
    by (simp add: wf_dict_def keys_def mean_defs)
  have res: "get_average_dict sample_builtins ?data =
      Inr (map (\<lambda>(key, xs). (key, trunc (?q key))) ?data)"
    and fl: "\<forall>(key, xs)\<in>set ?data. 0 \<le> ?q key \<longrightarrow> trunc (?q key) = \<lfloor>?q key\<rfloor>"
    using get_average_dict_truncates[of ?data sample_builtins ?q, THEN conjunct1] h by blast+
  have "trunc (7 / 2) = \<lfloor>7 / 2 :: rat\<rfloor>" using fl by simp
  then have fl3: "\<lfloor>7 / 2 :: rat\<rfloor> = 3" by (simp add: trunc_def rat_floors)
  have "get_average_dict sample_builtins ?data = Inr [(1, 3), (2, 4)]"
    using res by (simp add: trunc_def rat_floors)
  moreover have "mean sample_builtins [PyFloat NaN] = Inr NaN" by (simp add: mean_defs)
  then have "\<exists>e. get_average_dict sample_builtins [(1 :: int, [PyFloat NaN])] = Inl e"
    using get_average_dict_truncates[of "[(1 :: int, [PyFloat NaN])]" sample_builtins ?q 1
        "[PyFloat NaN]" NaN, THEN conjunct2]
    by auto
  ultimately show ?thesis using fl3 by simp
qed

section \<open>The vacancy of a valid row\<close>


lemma getitem_None: "map_of d k = None \<Longrightarrow> getitem d k = Inl (KeyError k)"
  by (simp add: getitem_def)



section \<open>A currency that is not in the table\<close>

lemma Vacancy_init_unknown_currency:
  assumes "map_of row ''salary_currency'' = Some currency"
      and "map_of currency_to_rub currency = None"
  shows "\<exists>e. Vacancy_init py row = Inl e"
proof (rule not_Inr_is_Inl, intro allI notI)
  fix v assume "Vacancy_init py row = Inr v"
  then obtain c rate where "getitem row ''salary_currency'' = Inr c"
    "getitem currency_to_rub c = Inr rate"
    unfolding Vacancy_init_def bind_Inr_iff by blast
  then show False using assms by (simp add: getitem_def)
qed

lemma get_statistics_loop_error:
  assumes "row \<in> set rows" and "Vacancy_init py row = Inl e"
  shows "\<exists>e'. get_statistics_loop py vacancy_name acc rows = Inl e'"
  using assms
proof (induction rows arbitrary: acc)
  case Nil
  then show ?case by simp
next
  case (Cons r rows)
  show ?case
  proof (cases "Vacancy_init py r")
    case (Inl e')
    then show ?thesis by simp
  next
    case (Inr v)
    then have "row \<in> set rows" using Cons.prems by auto
    then show ?thesis using Cons.IH Cons.prems(2) Inr by simp
  qed
qed

lemma get_statistics_loop_first_error:
  assumes "\<forall>r\<in>set accepted. \<exists>v. Vacancy_init py r = Inr v" and "Vacancy_init py row = Inl e"
  shows "get_statistics_loop py vacancy_name acc (accepted @ row # rest) = Inl e"
  using assms(1)
proof (induction accepted arbitrary: acc)
  case Nil
  show ?case using assms(2) by simp
next
  case (Cons r accepted)
  then obtain v where "Vacancy_init py r = Inr v" by auto
  then show ?case using Cons by simp
qed

lemma sequence_error: "Inl e \<in> set rs \<Longrightarrow> \<exists>e'. sequence rs = Inl e'"
proof (induction rs)
  case Nil
  then show ?case by simp
next
  case (Cons r rs)
  show ?case
  proof (cases r)
    case (Inl e')
    then show ?thesis by simp
  next
    case (Inr x)
    then have "Inl e \<in> set rs" using Cons.prems by auto
    then obtain e' where "sequence rs = Inl e'" using Cons.IH by blast
    then show ?thesis using Inr by simp
  qed
qed

lemma sequence_error_after_values:
  "\<forall>r\<in>set before. \<exists>x. r = Inr x \<Longrightarrow> sequence (before @ Inl e # after) = Inl e"
  by (induction before) auto

lemma get_united_dict_error:
  assumes "Inl e \<in> set ps"
  shows "\<exists>e'. get_united_dict ps = Inl e'"
proof -
  obtain e' where "sequence ps = Inl e'" using sequence_error[OF assms] by blast
  then show ?thesis by (simp add: get_united_dict_eq)
qed

lemma get_united_dict_first_error:
  assumes "\<forall>r\<in>set before. \<exists>x. r = Inr x"
  shows "get_united_dict (before @ Inl e # after) = Inl e"
  using sequence_error_after_values[OF assms] by (simp add: get_united_dict_eq)

lemmas row_defs =
  csv_reader_def titles_def py_dict_def Vacancy_init_def getitem_def sample_builtins_def
  digit_def decimal_def py_int_def trunc_def currency_to_rub_def parse_year_from_date_slice_def
  py_mul_def py_truediv_def to_float_def

text \<open>
  Two chunk files. The vacancy of the first has a date that \<^verbatim>\<open>int\<close> refuses, the vacancy
  of the second a currency that is not in the table. The second chunk fails with the
  \<^verbatim>\<open>KeyError\<close> of the currency, and the run ends with the \<^verbatim>\<open>ValueError\<close> of the first chunk:
  the \<^verbatim>\<open>KeyError\<close> does not reach the coordinator.
\<close>

theorem earlier_failure_surfaces:
  "get_statistics sample_builtins ''Dev'' chunk_f = Inl ValueError \<and>
   get_statistics sample_builtins ''Dev'' chunk_d = Inl (KeyError ''XXX'') \<and>
   process_input sample_builtins ''Dev'' [chunk_f, chunk_d] = Inl ValueError"
proof -
  have f: "get_statistics sample_builtins ''Dev'' chunk_f = Inl ValueError"
    by (simp add: get_statistics_def chunk_f_def row_defs)
  have d: "get_statistics sample_builtins ''Dev'' chunk_d = Inl (KeyError ''XXX'')"
    by (simp add: get_statistics_def chunk_d_def row_defs)
  show ?thesis by (simp add: f d process_input_def get_united_dict_eq)
qed

text \<open>
  Claim C8, as the code has it. Let a chunk file hold a valid row whose currency is not a
  key of \<^verbatim>\<open>currency_to_rub\<close>. Then \<^verbatim>\<open>Vacancy.__init__\<close> raises on that row: there is no
  fallback rate and the row is not skipped. \<^verbatim>\<open>get_statistics\<close> of that chunk raises, and
  so does \<^verbatim>\<open>process_input\<close>, whatever the other chunks are: no statistics are printed.
  The exception is the \<^verbatim>\<open>KeyError\<close> of the currency where the row is the first failure:
  for the row, when its name and its two salaries are read without an exception; for the
  chunk, when moreover the valid rows before it are accepted; for the run, when moreover
  the chunks before it return.
\<close>

theorem unknown_currency_is_fatal:
  assumes "file \<in> set files"
      and "csv_reader file = Inr rows"
      and "row \<in> set rows"
      and "map_of row ''salary_currency'' = Some currency"
      and "map_of currency_to_rub currency = None"
  shows "(\<exists>e. Vacancy_init py row = Inl e) \<and>
         (\<exists>e. get_statistics py vacancy_name file = Inl e) \<and>
         (\<exists>e. process_input py vacancy_name files = Inl e) \<and>
         (map_of row ''name'' = Some nm \<and>
          map_of row ''salary_from'' = Some from_str \<and>
          float_of_str py from_str = Inr (Finite from_value) \<and>
          map_of row ''salary_to'' = Some to_str \<and>
          float_of_str py to_str = Inr (Finite to_value) \<longrightarrow>
            Vacancy_init py row = Inl (KeyError currency) \<and>
            (rows = accepted @ row # rest \<and>
             (\<forall>r\<in>set accepted. \<exists>v. Vacancy_init py r = Inr v) \<longrightarrow>
               get_statistics py vacancy_name file = Inl (KeyError currency) \<and>
               (files = before @ file # after \<and>
                (\<forall>f\<in>set before. \<exists>s. get_statistics py vacancy_name f = Inr s) \<longrightarrow>
                  process_input py vacancy_name files = Inl (KeyError currency))))"
proof (intro conjI)
  obtain e where e: "Vacancy_init py row = Inl e"
    using Vacancy_init_unknown_currency[OF assms(4,5)] by blast
  then show "\<exists>e. Vacancy_init py row = Inl e" by blast
  obtain e' where "get_statistics_loop py vacancy_name initial rows = Inl e'"
    using get_statistics_loop_error[OF assms(3) e] by blast
  then have chunk: "get_statistics py vacancy_name file = Inl e'"
    using assms(2) by (simp add: get_statistics_def)
  then show "\<exists>e. get_statistics py vacancy_name file = Inl e" by blast
  have "Inl e' \<in> set (map (get_statistics py vacancy_name) files)"
    using assms(1) chunk by force
  then show "\<exists>e. process_input py vacancy_name files = Inl e"
    unfolding process_input_def by (rule get_united_dict_error)
  show "map_of row ''name'' = Some nm \<and>
          map_of row ''salary_from'' = Some from_str \<and>
          float_of_str py from_str = Inr (Finite from_value) \<and>
          map_of row ''salary_to'' = Some to_str \<and>
          float_of_str py to_str = Inr (Finite to_value) \<longrightarrow>
            Vacancy_init py row = Inl (KeyError currency) \<and>
            (rows = accepted @ row # rest \<and>
             (\<forall>r\<in>set accepted. \<exists>v. Vacancy_init py r = Inr v) \<longrightarrow>
               get_statistics py vacancy_name file = Inl (KeyError currency) \<and>
               (files = before @ file # after \<and>
                (\<forall>f\<in>set before. \<exists>s. get_statistics py vacancy_name f = Inr s) \<longrightarrow>
                  process_input py vacancy_name files = Inl (KeyError currency)))"
  proof (intro impI conjI)
    assume "map_of row ''name'' = Some nm \<and>
          map_of row ''salary_from'' = Some from_str \<and>
          float_of_str py from_str = Inr (Finite from_value) \<and>
          map_of row ''salary_to'' = Some to_str \<and>
          float_of_str py to_str = Inr (Finite to_value)"
    then show key: "Vacancy_init py row = Inl (KeyError currency)"
      using assms(4,5) by (simp add: Vacancy_init_def getitem_def py_int_def)
    assume "rows = accepted @ row # rest \<and>
             (\<forall>r\<in>set accepted. \<exists>v. Vacancy_init py r = Inr v)"
    then have "get_statistics_loop py vacancy_name initial rows = Inl (KeyError currency)"
      using get_statistics_loop_first_error[of accepted py row "KeyError currency"] key by blast
    then show first: "get_statistics py vacancy_name file = Inl (KeyError currency)"
      using assms(2) by (simp add: get_statistics_def)
    assume "files = before @ file # after \<and>
                (\<forall>f\<in>set before. \<exists>s. get_statistics py vacancy_name f = Inr s)"
    then have "map (get_statistics py vacancy_name) files =
        map (get_statistics py vacancy_name) before @ Inl (KeyError currency) #
        map (get_statistics py vacancy_name) after"
      and "\<forall>r\<in>set (map (get_statistics py vacancy_name) before). \<exists>x. r = Inr x"
      using first by auto
    then show "process_input py vacancy_name files = Inl (KeyError currency)"
      unfolding process_input_def using get_united_dict_first_error by metis
  qed
qed

text \<open>
  Three chunk files; the vacancy of the second has the currency XXX, the first chunk
  returns.
\<close>

theorem unknown_currency_is_fatal_witness:
  "Vacancy_init sample_builtins
     (py_dict (zip titles [''Dev'', ''100'', ''100'', ''XXX'', ''Omsk'', ''2020-01-01''])) =
     Inl (KeyError ''XXX'') \<and>
   get_statistics sample_builtins ''Dev'' chunk_d = Inl (KeyError ''XXX'') \<and>
   process_input sample_builtins ''Dev'' [chunk_a, chunk_d, chunk_c] = Inl (KeyError ''XXX'')"
proof -
  let ?row = "py_dict (zip titles [''Dev'', ''100'', ''100'', ''XXX'', ''Omsk'', ''2020-01-01''])"
  have row: "?row = [(''name'', ''Dev''), (''salary_from'', ''100''), (''salary_to'', ''100''),
     (''salary_currency'', ''XXX''), (''area_name'', ''Omsk''), (''published_at'', ''2020-01-01'')]"
    by (simp add: py_dict_def titles_def)
  have h1: "chunk_d \<in> set [chunk_a, chunk_d, chunk_c]" by simp
  have h2: "csv_reader chunk_d = Inr [?row]"
    by (simp add: csv_reader_def chunk_d_def titles_def)
  have h3: "?row \<in> set [?row]" by simp
  have h4: "map_of ?row ''salary_currency'' = Some ''XXX''" by (simp add: row)
  have h5: "map_of currency_to_rub ''XXX'' = None" by (simp add: currency_to_rub_def)
  have read: "map_of ?row ''name'' = Some ''Dev'' \<and>
          map_of ?row ''salary_from'' = Some ''100'' \<and>
          float_of_str sample_builtins ''100'' = Inr (Finite 100) \<and>
          map_of ?row ''salary_to'' = Some ''100'' \<and>
          float_of_str sample_builtins ''100'' = Inr (Finite 100)"
    by (simp add: row sample_builtins_def digit_def decimal_def)
  have rows: "[?row] = [] @ ?row # [] \<and>
      (\<forall>r\<in>set []. \<exists>v. Vacancy_init sample_builtins r = Inr v)"
    by simp
  have files: "[chunk_a, chunk_d, chunk_c] = [chunk_a] @ chunk_d # [chunk_c] \<and>
      (\<forall>f\<in>set [chunk_a]. \<exists>s. get_statistics sample_builtins ''Dev'' f = Inr s)"
    by (simp add: chunk_a_statistics)
  note inst = unknown_currency_is_fatal[OF h1 h2 h3 h4 h5, of sample_builtins "''Dev''"
      "''Dev''" "''100''" 100 "''100''" 100 "[]" "[]" "[chunk_a]" "[chunk_c]",
      THEN conjunct2, THEN conjunct2, THEN conjunct2, rule_format, OF read]
  have "Vacancy_init sample_builtins ?row = Inl (KeyError ''XXX'')"
    using inst by (rule conjunct1)
  moreover note chunk = inst[THEN conjunct2, rule_format, OF rows]
  have "get_statistics sample_builtins ''Dev'' chunk_d = Inl (KeyError ''XXX'')"
    using chunk by (rule conjunct1)
  moreover have "process_input sample_builtins ''Dev'' [chunk_a, chunk_d, chunk_c] =
      Inl (KeyError ''XXX'')"
    using chunk[THEN conjunct2, rule_format, OF files] .
  ultimately show ?thesis by blast
qed

section \<open>The finalization of the accumulators of a chunk\<close>

lemma set_setitem: "set (setitem d k v) \<subseteq> insert (k, v) (set d)"
  by (induction d) (auto split: if_splits)

lemma keys_increment:
  "keys (increment d k v) = (if k \<in> set (keys d) then keys d else keys d @ [k])"
  by (simp add: increment_def keys_setitem split: option.splits)

lemma wf_increment: "wf_dict d \<Longrightarrow> wf_dict (increment d k v)"
  by (simp add: increment_def wf_setitem split: option.splits)

lemma py_dict_wf: "distinct (map fst ps) \<Longrightarrow> py_dict ps = ps"
  using dict_update_disjoint[of ps "[]"] by (simp add: py_dict_def wf_dict_def keys_def)

lemma keys_counted [simp]: "keys (counted d) = keys d"
  by (simp add: counted_def keys_def case_prod_unfold comp_def)

lemma keys_zeroed [simp]: "keys (zeroed d) = keys d"
  by (simp add: zeroed_def keys_def case_prod_unfold comp_def)

lemma mean_zero: "mean py [PyInt 0] = Inr (Finite 0)"
  by (simp add: mean_def py_sum_def py_truediv_def)

lemma get_average_dict_keys:
  assumes "wf_dict data" and "get_average_dict py data = Inr r"
  shows "keys r = keys data"
proof -
  have "distinct (keys ([] :: ('a \<times> int) list) @ keys data)"
    using assms(1) by (simp add: wf_dict_def keys_def)
  moreover have "average_loop py data [] = Inr r"
    using assms(2) by (simp add: get_average_dict_def)
  ultimately have "keys r = keys ([] :: ('a \<times> int) list) @ keys data"
    by (rule average_loop_keys)
  then show ?thesis by (simp add: keys_def)
qed

text \<open>The averages of the lists \<^verbatim>\<open>[0]\<close> are 0 whatever the arithmetic of floats is.\<close>

lemma get_average_dict_zeros:
  assumes "wf_dict d"
  shows "get_average_dict py (map (\<lambda>(key, value). (key, [PyInt 0])) d) = Inr (zeroed d)"
proof -
  let ?zeros = "map (\<lambda>(key, value). (key, [PyInt 0])) d"
  have "average_loop py ?zeros [] = Inr ([] @ map (\<lambda>(key, xs). (key, trunc ((\<lambda>key. 0) key))) ?zeros)"
  proof (rule average_loop_finite)
    show "distinct (keys [] @ keys ?zeros)"
      using assms by (simp add: wf_dict_def keys_def case_prod_unfold comp_def)
    show "mean py xs = Inr (Finite 0)" if "(key, xs) \<in> set ?zeros" for key xs
      using that by (auto simp: mean_zero)
  qed
  then show ?thesis
    by (simp add: get_average_dict_def zeroed_def trunc_def case_prod_unfold comp_def)
qed

text \<open>The tuple of the finalization, when it returns one.\<close>

lemma get_statistics_finish_Inr:
  assumes wf: "wf_dict (salary acc)" "wf_dict (salary_of_vacancy_name acc)"
      and ret: "get_statistics_finish py acc = Inr (a, b, c, d)"
  shows "keys a = keys (salary acc)"
    and "b = counted (salary acc)"
    and "salary_of_vacancy_name acc = [] \<Longrightarrow> c = zeroed (salary acc) \<and> d = zeroed (salary acc)"
    and "salary_of_vacancy_name acc \<noteq> [] \<Longrightarrow>
           keys c = keys (salary_of_vacancy_name acc) \<and> d = counted (salary_of_vacancy_name acc)"
proof -
  have d1: "distinct (map fst (map (\<lambda>(key, value). (key, int (length value))) (salary acc)))"
    and d2: "distinct (map fst (map (\<lambda>(key, value). (key, int (length value))) (salary_of_vacancy_name acc)))"
    and d3: "distinct (map fst (map (\<lambda>(key, value). (key, [PyInt 0])) (salary acc)))"
    using wf by (simp_all add: wf_dict_def keys_def case_prod_unfold comp_def)
  have number: "py_dict (map (\<lambda>(key, value). (key, int (length value))) (salary acc)) = counted (salary acc)"
    using py_dict_wf[OF d1] by (simp add: counted_def)
  have per_name: "py_dict (map (\<lambda>(key, value). (key, int (length value))) (salary_of_vacancy_name acc)) =
      counted (salary_of_vacancy_name acc)"
    using py_dict_wf[OF d2] by (simp add: counted_def)
  let ?zeros = "map (\<lambda>(key, value). (key, [PyInt 0])) (salary acc)"
  have zeros: "py_dict ?zeros = ?zeros" by (rule py_dict_wf[OF d3])
  have "distinct (map fst (map (\<lambda>(key, value). (key, 0 :: int)) (counted (salary acc))))"
    using wf(1) by (simp add: wf_dict_def keys_def counted_def case_prod_unfold comp_def)
  then have "py_dict (map (\<lambda>(key, value). (key, 0 :: int)) (counted (salary acc))) =
      map (\<lambda>(key, value). (key, 0)) (counted (salary acc))"
    by (rule py_dict_wf)
  then have zero_counts:
    "py_dict (map (\<lambda>(key, value). (key, 0)) (counted (salary acc))) = zeroed (salary acc)"
    by (simp add: zeroed_def counted_def case_prod_unfold comp_def)
  have avg_zeros: "get_average_dict py ?zeros = Inr (zeroed (salary acc))"
    using wf(1) by (rule get_average_dict_zeros)
  from ret obtain c' where parts:
    "get_average_dict py (salary acc) = Inr a"
    "b = counted (salary acc)"
    "get_average_dict py (if salary_of_vacancy_name acc = [] then ?zeros
                         else salary_of_vacancy_name acc) = Inr c'"
    "c = c'"
    "d = (if salary_of_vacancy_name acc = [] then zeroed (salary acc)
          else counted (salary_of_vacancy_name acc))"
    unfolding get_statistics_finish_def Let_def number per_name zeros zero_counts
    by (auto simp: bind_Inr_iff)
  show "keys a = keys (salary acc)" using wf(1) parts(1) by (rule get_average_dict_keys)
  show "b = counted (salary acc)" by (rule parts(2))
  show "c = zeroed (salary acc) \<and> d = zeroed (salary acc)" if "salary_of_vacancy_name acc = []"
    using parts(3,4,5) that avg_zeros by simp
  show "keys c = keys (salary_of_vacancy_name acc) \<and> d = counted (salary_of_vacancy_name acc)"
    if "salary_of_vacancy_name acc \<noteq> []"
    using parts(3,4,5) that get_average_dict_keys[OF wf(2), of py c'] by simp
qed

section \<open>The loop of \<^verbatim>\<open>get_statistics\<close>\<close>

lemma get_statistics_loop_eq:
  "get_statistics_loop py vacancy_name acc rows =
     bind (sequence (map (Vacancy_init py) rows))
       (\<lambda>vs. Inr (foldl (count_vacancy vacancy_name) acc vs))"
proof (induction rows arbitrary: acc)
  case Nil
  show ?case by simp
next
  case (Cons row rows)
  show ?case
  proof (cases "Vacancy_init py row")
    case (Inl e)
    then show ?thesis by simp
  next
    case (Inr v)
    then show ?thesis
      by (cases "sequence (map (Vacancy_init py) rows)") (simp_all add: Cons.IH)
  qed
qed

lemma get_statistics_eq:
  "get_statistics py vacancy_name file =
     bind (chunk_vacancies py file)
       (\<lambda>vs. get_statistics_finish py (foldl (count_vacancy vacancy_name) initial vs))"
proof (cases "csv_reader file")
  case (Inl e)
  then show ?thesis by (simp add: get_statistics_def chunk_vacancies_def)
next
  case (Inr rows)
  then show ?thesis
    by (cases "sequence (map (Vacancy_init py) rows)")
       (simp_all add: get_statistics_def chunk_vacancies_def get_statistics_loop_eq)
qed

lemma count_vacancy_simps [simp]:
  "salary (count_vacancy vn acc v) = increment (salary acc) (year v) [PyFloat (salary_average v)]"
  "salary_of_vacancy_name (count_vacancy vn acc v) =
     (if matching vn v then increment (salary_of_vacancy_name acc) (year v) [PyFloat (salary_average v)]
      else salary_of_vacancy_name acc)"
  "salary_city (count_vacancy vn acc v) = increment (salary_city acc) (area_name v) [PyFloat (salary_average v)]"
  "vacancies_count (count_vacancy vn acc v) = vacancies_count acc + 1"
  by (simp_all add: count_vacancy_def matching_def)

lemma increment_not_Nil [simp]: "increment d k v \<noteq> []"
  by (cases d) (auto simp: increment_def split: option.splits)

text \<open>What holds of the accumulators whenever the loop is at the head of an iteration.\<close>

lemma foldl_count_vacancy:
  fixes vn :: string
  defines "acc \<equiv> \<lambda>vs. foldl (count_vacancy vn) initial vs"
  shows "wf_dict (salary (acc vs))"
    and "wf_dict (salary_of_vacancy_name (acc vs))"
    and "wf_dict (salary_city (acc vs))"
    and "set (keys (salary (acc vs))) = year ` set vs"
    and "set (keys (salary_of_vacancy_name (acc vs))) = year ` {v \<in> set vs. matching vn v}"
    and "vacancies_count (acc vs) = length vs"
    and "salary_city (acc vs) \<noteq> [] \<longleftrightarrow> vs \<noteq> []"
proof (induction vs rule: rev_induct)
  case Nil
  {
    case 1 show ?case by (simp add: acc_def initial_def wf_dict_def keys_def)
  next
    case 2 show ?case by (simp add: acc_def initial_def wf_dict_def keys_def)
  next
    case 3 show ?case by (simp add: acc_def initial_def wf_dict_def keys_def)
  next
    case 4 show ?case by (simp add: acc_def initial_def keys_def)
  next
    case 5 show ?case by (simp add: acc_def initial_def keys_def)
  next
    case 6 show ?case by (simp add: acc_def initial_def)
  next
    case 7 show ?case by (simp add: acc_def initial_def)
  }
next
  case (snoc v vs)
  have step: "acc (vs @ [v]) = count_vacancy vn (acc vs) v" by (simp add: acc_def)
  {
    case 1 show ?case using snoc(1) by (simp add: step wf_increment)
  next
    case 2 show ?case using snoc(2) by (simp add: step wf_increment)
  next
    case 3 show ?case using snoc(3) by (simp add: step wf_increment)
  next
    case 4 show ?case using snoc(4) by (auto simp: step keys_increment)
  next
    case 5 show ?case using snoc(5) by (auto simp: step keys_increment)
  next
    case 6 show ?case using snoc(6) by (simp add: step)
  next
    case 7 show ?case by (simp add: step)
  }
qed

section \<open>The statistics of a chunk\<close>

lemma get_statistics_of_vacancies:
  fixes vn :: string
  assumes "chunk_vacancies py file = Inr vs" and "get_statistics py vn file = Inr (a, b, c, d)"
  defines "acc \<equiv> foldl (count_vacancy vn) initial vs"
  shows "keys a = keys (salary acc)"
    and "b = counted (salary acc)"
    and "salary_of_vacancy_name acc = [] \<Longrightarrow> c = zeroed (salary acc) \<and> d = zeroed (salary acc)"
    and "salary_of_vacancy_name acc \<noteq> [] \<Longrightarrow>
           keys c = keys (salary_of_vacancy_name acc) \<and> d = counted (salary_of_vacancy_name acc)"
proof -
  have ret: "get_statistics_finish py acc = Inr (a, b, c, d)"
    using assms(1,2) by (simp add: get_statistics_eq acc_def)
  have wf: "wf_dict (salary acc)" "wf_dict (salary_of_vacancy_name acc)"
    unfolding acc_def by (rule foldl_count_vacancy)+
  show "keys a = keys (salary acc)" by (rule get_statistics_finish_Inr(1)[OF wf ret])
  show "b = counted (salary acc)" by (rule get_statistics_finish_Inr(2)[OF wf ret])
  show "c = zeroed (salary acc) \<and> d = zeroed (salary acc)" if "salary_of_vacancy_name acc = []"
    using that by (rule get_statistics_finish_Inr(3)[OF wf ret])
  show "keys c = keys (salary_of_vacancy_name acc) \<and> d = counted (salary_of_vacancy_name acc)"
    if "salary_of_vacancy_name acc \<noteq> []"
    using that by (rule get_statistics_finish_Inr(4)[OF wf ret])
qed

lemma no_target_iff:
  "salary_of_vacancy_name (foldl (count_vacancy vn) initial vs) = [] \<longleftrightarrow>
     (\<forall>v\<in>set vs. \<not> matching vn v)"
proof -
  let ?t = "salary_of_vacancy_name (foldl (count_vacancy vn) initial vs)"
  have "?t = [] \<longleftrightarrow> set (keys ?t) = {}" by (simp add: keys_def)
  also have "\<dots> \<longleftrightarrow> (\<forall>v\<in>set vs. \<not> matching vn v)"
    unfolding foldl_count_vacancy(5) by auto
  finally show ?thesis .
qed

lemma chunk_vacancies_loop:
  assumes "csv_reader file = Inr rows" and "get_statistics_loop py vn initial rows = Inr acc"
  shows "\<exists>vs. chunk_vacancies py file = Inr vs \<and> acc = foldl (count_vacancy vn) initial vs"
  using assms
  by (cases "sequence (map (Vacancy_init py) rows)")
     (auto simp: get_statistics_loop_eq chunk_vacancies_def)


section \<open>No valid row\<close>




section \<open>The years of the profession are years of the chunk\<close>

lemma chunk_vacancies_of_statistics:
  "get_statistics py vn file = Inr s \<Longrightarrow> \<exists>vs. chunk_vacancies py file = Inr vs"
  by (cases "chunk_vacancies py file") (simp_all add: get_statistics_eq)

text \<open>
  Claim C9. In the tuple that \<^verbatim>\<open>get_statistics\<close> returns for a chunk, every year of
  \<^verbatim>\<open>stat_salary_by_vac\<close> and every year of \<^verbatim>\<open>vacs_per_name\<close> (positions 2 and 3) is a year of
  \<^verbatim>\<open>stat_salary\<close> (position 0). The merge keeps this: if it holds of every tuple of one or
  more tasks, it holds of the merged tuple.
\<close>

theorem target_years_among_all_years:
  "(get_statistics py vn file = Inr (a, b, c, d) \<longrightarrow>
      set (keys c) \<subseteq> set (keys a) \<and> set (keys d) \<subseteq> set (keys a)) \<and>
   (cs \<noteq> [] \<and>
    (\<forall>s\<in>set cs. set (keys (tuple_item s 2)) \<subseteq> set (keys (tuple_item s 0)) \<and>
                 set (keys (tuple_item s 3)) \<subseteq> set (keys (tuple_item s 0))) \<longrightarrow>
    (\<exists>r. get_united_dict (map Inr cs) = Inr r \<and>
         set (keys (tuple_item r 2)) \<subseteq> set (keys (tuple_item r 0)) \<and>
         set (keys (tuple_item r 3)) \<subseteq> set (keys (tuple_item r 0))))"
proof (intro conjI impI)
  assume stat: "get_statistics py vn file = Inr (a, b, c, d)"
  then obtain vs where vs: "chunk_vacancies py file = Inr vs"
    using chunk_vacancies_of_statistics by blast
  let ?acc = "foldl (count_vacancy vn) initial vs"
  have sub: "set (keys (salary_of_vacancy_name ?acc)) \<subseteq> set (keys (salary ?acc))"
    unfolding foldl_count_vacancy(4,5) by blast
  note stats = get_statistics_of_vacancies[OF vs stat]
  have keys_a: "keys a = keys (salary ?acc)" by (rule stats(1))
  show "set (keys c) \<subseteq> set (keys a)"
  proof (cases "salary_of_vacancy_name ?acc = []")
    case True
    then show ?thesis using stats(3) keys_a by simp
  next
    case False
    then show ?thesis using stats(4) keys_a sub by simp
  qed
  show "set (keys d) \<subseteq> set (keys a)"
  proof (cases "salary_of_vacancy_name ?acc = []")
    case True
    then show ?thesis using stats(3) keys_a by simp
  next
    case False
    then show ?thesis using stats(4) keys_a sub by simp
  qed
next
  assume h: "cs \<noteq> [] \<and>
    (\<forall>s\<in>set cs. set (keys (tuple_item s 2)) \<subseteq> set (keys (tuple_item s 0)) \<and>
                 set (keys (tuple_item s 3)) \<subseteq> set (keys (tuple_item s 0)))"
  then obtain s ss where cs: "cs = s # ss" by (cases cs) auto
  let ?r = "foldl united s ss"
  have res: "get_united_dict (map Inr cs) = Inr ?r"
    using get_united_dict_store_ok[of s ss] cs by (simp add: get_united_dict_def)
  have keys: "set (keys (tuple_item ?r k)) = (\<Union>c\<in>set cs. set (keys (tuple_item c k)))" for k
    by (simp add: tuple_item_foldl_united set_keys_foldl_dict_update cs)
  have "set (keys (tuple_item ?r 2)) \<subseteq> set (keys (tuple_item ?r 0))"
    "set (keys (tuple_item ?r 3)) \<subseteq> set (keys (tuple_item ?r 0))"
    unfolding keys using h by blast+
  then show "\<exists>r. get_united_dict (map Inr cs) = Inr r \<and>
         set (keys (tuple_item r 2)) \<subseteq> set (keys (tuple_item r 0)) \<and>
         set (keys (tuple_item r 3)) \<subseteq> set (keys (tuple_item r 0))"
    using res by blast
qed

theorem target_years_among_all_years_witness:
  "set (keys ([(2020, 100)] :: year_dict)) \<subseteq> set (keys ([(2020, 100), (2021, 300)] :: year_dict)) \<and>
   (\<exists>r. get_united_dict (map (get_statistics sample_builtins ''Dev'') [chunk_a, chunk_c]) = Inr r \<and>
        set (keys (tuple_item r 2)) \<subseteq> set (keys (tuple_item r 0)) \<and>
        set (keys (tuple_item r 3)) \<subseteq> set (keys (tuple_item r 0)))"
proof -
  let ?a = "([(2020, 100)], [(2020, 1)], [(2020, 100)], [(2020, 1)]) :: statistics"
  let ?c = "([(2021, 300)], [(2021, 1)], [(2021, 0)], [(2021, 0)]) :: statistics"
  let ?cs = "[?a, ?c]"
  have run: "map (get_statistics sample_builtins ''Dev'') [chunk_a, chunk_c] = map Inr ?cs"
    by (simp add: chunk_a_statistics chunk_c_statistics)
  note inst = target_years_among_all_years[of sample_builtins "''Dev''" chunk_e
      "[(2020, 100), (2021, 300)]" "[(2020, 1), (2021, 1)]" "[(2020, 100)]" "[(2020, 1)]" ?cs]
  have h: "?cs \<noteq> [] \<and>
    (\<forall>s\<in>set ?cs. set (keys (tuple_item s 2)) \<subseteq> set (keys (tuple_item s 0)) \<and>
                 set (keys (tuple_item s 3)) \<subseteq> set (keys (tuple_item s 0)))"
    by (simp add: keys_def)
  have "set (keys ([(2020, 100)] :: year_dict)) \<subseteq> set (keys ([(2020, 100), (2021, 300)] :: year_dict))"
    using inst[THEN conjunct1, rule_format, OF chunk_e_statistics] by simp
  moreover have "\<exists>r. get_united_dict (map Inr ?cs) = Inr r \<and>
        set (keys (tuple_item r 2)) \<subseteq> set (keys (tuple_item r 0)) \<and>
        set (keys (tuple_item r 3)) \<subseteq> set (keys (tuple_item r 0))"
    using inst[THEN conjunct2, rule_format, OF h] .
  ultimately show ?thesis unfolding run by blast
qed

section \<open>The statistics of the profession\<close>

lemma sequence_Inr: "sequence rs = Inr xs \<Longrightarrow> rs = map Inr xs"
proof (induction rs arbitrary: xs)
  case Nil
  then show ?case by simp
next
  case (Cons r rs)
  then obtain x ys where "r = Inr x" "sequence rs = Inr ys" "xs = x # ys"
    by (auto simp: bind_Inr_iff)
  then show ?case using Cons.IH by simp
qed

lemma keys_dict_update_cong:
  "keys d = keys d' \<Longrightarrow> keys other = keys other' \<Longrightarrow>
   keys (dict_update d other) = keys (dict_update d' other')"
proof (induction d other arbitrary: d' other' rule: dict_update.induct)
  case (1 d)
  then show ?case by (simp add: keys_def)
next
  case (2 d k v other)
  from "2.prems"(2) obtain v' rest where other': "other' = (k, v') # rest" "keys other = keys rest"
    by (cases other') (auto simp: keys_def)
  have "keys (setitem d k v) = keys (setitem d' k v')"
    using "2.prems"(1) by (simp add: keys_setitem)
  then show ?case using "2.IH" other' by simp
qed

lemma keys_foldl_dict_update_cong:
  assumes "keys d = keys d'" and "\<And>s. s \<in> set ss \<Longrightarrow> keys (f s) = keys (g s)"
  shows "keys (foldl dict_update d (map f ss)) = keys (foldl dict_update d' (map g ss))"
  using assms
proof (induction ss arbitrary: d d')
  case Nil
  then show ?case by simp
next
  case (Cons s ss)
  have "keys (dict_update d (f s)) = keys (dict_update d' (g s))"
    using Cons.prems by (intro keys_dict_update_cong) simp_all
  then show ?case using Cons.IH Cons.prems(2) by simp
qed

lemma set_dict_update: "set (dict_update d other) \<subseteq> set d \<union> set other"
proof (induction d other rule: dict_update.induct)
  case (1 d)
  show ?case by simp
next
  case (2 d k v other)
  then show ?case using set_setitem[of d k v] by auto
qed

lemma set_foldl_dict_update: "set (foldl dict_update d ds) \<subseteq> set d \<union> (\<Union>e\<in>set ds. set e)"
proof (induction ds arbitrary: d)
  case Nil
  show ?case by simp
next
  case (Cons e ds)
  show ?case using Cons.IH[of "dict_update d e"] set_dict_update[of d e] by auto
qed

text \<open>The tuple of a chunk none of whose vacancies names the profession.\<close>

lemma no_target_statistics:
  assumes "chunk_vacancies py file = Inr vs" and "\<forall>v\<in>set vs. \<not> matching vn v"
      and "get_statistics py vn file = Inr s"
  shows "keys (tuple_item s 2) = keys (tuple_item s 0)"
    and "keys (tuple_item s 3) = keys (tuple_item s 0)"
    and "\<forall>(k, n)\<in>set (tuple_item s 2). n = 0"
    and "\<forall>(k, n)\<in>set (tuple_item s 3). n = 0"
proof -
  let ?acc = "foldl (count_vacancy vn) initial vs"
  have "salary_of_vacancy_name ?acc = []"
    using assms(2) by (simp add: no_target_iff)
  moreover obtain a b c d where s: "s = (a, b, c, d)" by (cases s)
  ultimately have cd: "c = zeroed (salary ?acc) \<and> d = zeroed (salary ?acc)"
    and a: "keys a = keys (salary ?acc)"
    using get_statistics_of_vacancies(1,3)[OF assms(1), of vn a b c d] assms(3) by simp_all
  show "keys (tuple_item s 2) = keys (tuple_item s 0)"
    "keys (tuple_item s 3) = keys (tuple_item s 0)"
    by (simp_all add: s cd a)
  show "\<forall>(k, n)\<in>set (tuple_item s 2). n = 0" "\<forall>(k, n)\<in>set (tuple_item s 3). n = 0"
    by (auto simp: s cd zeroed_def)
qed

text \<open>
  Two chunks: the vacancy of the first names the profession, the vacancy of the second,
  of 2021, does not. A row matches, and yet 2021, a year with no matching row, is a key of
  the two dicts of the profession, with the value 0.
\<close>

theorem unmatched_chunk_year_is_zero:
  "str_find ''Dev'' ''Dev'' = 0 \<and> str_find ''QA'' ''Dev'' = - 1 \<and>
   process_input sample_builtins ''Dev'' [chunk_a, chunk_c] =
     Inr ([(2020, 100), (2021, 300)], [(2020, 1), (2021, 1)],
          [(2020, 100), (2021, 0)], [(2020, 1), (2021, 0)])"
  by (simp add: process_input_def chunk_a_statistics chunk_c_statistics get_united_dict_eq)

text \<open>
  Claim C3, as the code has it. If no vacancy of any chunk names the profession, the two
  dicts of the profession in the final output have exactly the keys of \<^verbatim>\<open>salary_by_year\<close>
  and every value is 0. Otherwise the rule works chunk by chunk, in the tuple that
  \<^verbatim>\<open>get_statistics\<close> returns for the chunk: a chunk with a vacancy that names the profession
  gives the dicts of the profession exactly the years of its vacancies that name it, and
  a chunk without one gives them all its years with the value 0; the merge then stores
  the chunks over each other.
\<close>

theorem target_fallback_per_chunk:
  "(process_input py vn files = Inr (a, b, c, d) \<and>
    (\<forall>file\<in>set files. \<forall>vs. chunk_vacancies py file = Inr vs \<longrightarrow> (\<forall>v\<in>set vs. \<not> matching vn v)) \<longrightarrow>
      keys c = keys a \<and> keys d = keys a \<and> (\<forall>(k, n)\<in>set c. n = 0) \<and> (\<forall>(k, n)\<in>set d. n = 0)) \<and>
   (chunk_vacancies py file = Inr vs \<and> get_statistics py vn file = Inr (a', b', c', d') \<longrightarrow>
      (if \<exists>v\<in>set vs. matching vn v
       then set (keys c') = year ` {v \<in> set vs. matching vn v} \<and>
            set (keys d') = year ` {v \<in> set vs. matching vn v}
       else keys c' = keys a' \<and> keys d' = keys a' \<and>
            (\<forall>(k, n)\<in>set c'. n = 0) \<and> (\<forall>(k, n)\<in>set d'. n = 0)))"
proof (intro conjI impI)
  assume h: "process_input py vn files = Inr (a, b, c, d) \<and>
    (\<forall>file\<in>set files. \<forall>vs. chunk_vacancies py file = Inr vs \<longrightarrow> (\<forall>v\<in>set vs. \<not> matching vn v))"
  let ?ps = "map (get_statistics py vn) files"
  have ne: "?ps \<noteq> []" using h by (auto simp: process_input_def get_united_dict_eq)
  then obtain ss where seq: "sequence ?ps = Inr ss"
    and r: "(a, b, c, d) = foldl united (hd ss) (tl ss)"
    using h by (auto simp: process_input_def get_united_dict_eq bind_Inr_iff)
  have ps: "?ps = map Inr ss" using seq by (rule sequence_Inr)
  then have "ss \<noteq> []" using ne by auto
  then obtain s0 rest where ss: "ss = s0 # rest" by (cases ss) auto
  have chunk: "keys (tuple_item s 2) = keys (tuple_item s 0) \<and>
      keys (tuple_item s 3) = keys (tuple_item s 0) \<and>
      (\<forall>(k, n)\<in>set (tuple_item s 2). n = 0) \<and> (\<forall>(k, n)\<in>set (tuple_item s 3). n = 0)"
    if "s \<in> set ss" for s
  proof -
    have "Inr s \<in> set ?ps" using that ps by simp
    then obtain f where f: "f \<in> set files" "get_statistics py vn f = Inr s"
      by auto
    obtain vs where vs: "chunk_vacancies py f = Inr vs"
      using chunk_vacancies_of_statistics[OF f(2)] by blast
    have "\<forall>v\<in>set vs. \<not> matching vn v" using h f(1) vs by blast
    from no_target_statistics[OF vs this f(2)] show ?thesis by blast
  qed
  have item: "tuple_item (a, b, c, d) k =
      foldl dict_update (tuple_item s0 k) (map (\<lambda>s. tuple_item s k) rest)" for k
    using r ss by (simp only: tuple_item_foldl_united list.sel)
  have kc: "keys (tuple_item (a, b, c, d) 2) = keys (tuple_item (a, b, c, d) 0)"
    unfolding item using chunk ss by (intro keys_foldl_dict_update_cong) simp_all
  have kd: "keys (tuple_item (a, b, c, d) 3) = keys (tuple_item (a, b, c, d) 0)"
    unfolding item using chunk ss by (intro keys_foldl_dict_update_cong) simp_all
  have zero: "\<forall>(k, n)\<in>set (tuple_item (a, b, c, d) j). n = 0" if "j = 2 \<or> j = 3" for j
  proof -
    have "set (tuple_item (a, b, c, d) j) \<subseteq> (\<Union>s\<in>set ss. set (tuple_item s j))"
      unfolding item using set_foldl_dict_update[of "tuple_item s0 j" "map (\<lambda>s. tuple_item s j) rest"]
      by (auto simp: ss)
    then show ?thesis using chunk that by fastforce
  qed
  show "keys c = keys a" using kc by simp
  show "keys d = keys a" using kd by simp
  show "\<forall>(k, n)\<in>set c. n = 0" using zero[of 2] by simp
  show "\<forall>(k, n)\<in>set d. n = 0" using zero[of 3] by simp
next
  assume h: "chunk_vacancies py file = Inr vs \<and> get_statistics py vn file = Inr (a', b', c', d')"
  let ?acc = "foldl (count_vacancy vn) initial vs"
  note stats = get_statistics_of_vacancies[OF h[THEN conjunct1] h[THEN conjunct2]]
  show "if \<exists>v\<in>set vs. matching vn v
          then set (keys c') = year ` {v \<in> set vs. matching vn v} \<and>
               set (keys d') = year ` {v \<in> set vs. matching vn v}
          else keys c' = keys a' \<and> keys d' = keys a' \<and>
               (\<forall>(k, n)\<in>set c'. n = 0) \<and> (\<forall>(k, n)\<in>set d'. n = 0)"
  proof (cases "\<exists>v\<in>set vs. matching vn v")
    case True
    then have "salary_of_vacancy_name ?acc \<noteq> []" by (simp add: no_target_iff)
    then have "keys c' = keys (salary_of_vacancy_name ?acc)"
      "d' = counted (salary_of_vacancy_name ?acc)"
      using stats(4) by simp_all
    then show ?thesis using True by (simp add: foldl_count_vacancy(5))
  next
    case False
    then have "salary_of_vacancy_name ?acc = []" by (simp add: no_target_iff)
    then have "c' = zeroed (salary ?acc)" "d' = zeroed (salary ?acc)"
      using stats(3) by simp_all
    moreover have "keys a' = keys (salary ?acc)" using stats(1) by simp
    moreover have "\<forall>(k, n)\<in>set (zeroed (salary ?acc)). n = 0" by (auto simp: zeroed_def)
    ultimately show ?thesis using False by simp
  qed
qed

lemmas vacancies_defs =
  chunk_vacancies_def csv_reader_def titles_def py_dict_def Vacancy_init_def getitem_def
  sample_builtins_def digit_def decimal_def py_int_def trunc_def currency_to_rub_def
  parse_year_from_date_slice_def py_mul_def py_truediv_def to_float_def

lemma chunk_b_vacancies:
  "chunk_vacancies sample_builtins chunk_b =
     Inr [\<lparr>name = ''QA'', salary_from = 200, salary_to = 200, salary_currency = ''RUR'',
           salary_average = Finite 200, area_name = ''Perm'', year = 2020\<rparr>]"
  by (simp add: chunk_b_def vacancies_defs)

lemma chunk_c_vacancies:
  "chunk_vacancies sample_builtins chunk_c =
     Inr [\<lparr>name = ''QA'', salary_from = 300, salary_to = 300, salary_currency = ''RUR'',
           salary_average = Finite 300, area_name = ''Perm'', year = 2021\<rparr>]"
  by (simp add: chunk_c_def vacancies_defs)

lemma chunk_e_vacancies:
  "chunk_vacancies sample_builtins chunk_e =
     Inr [\<lparr>name = ''Dev'', salary_from = 100, salary_to = 100, salary_currency = ''RUR'',
           salary_average = Finite 100, area_name = ''Omsk'', year = 2020\<rparr>,
          \<lparr>name = ''QA'', salary_from = 300, salary_to = 300, salary_currency = ''RUR'',
           salary_average = Finite 300, area_name = ''Perm'', year = 2021\<rparr>]"
  by (simp add: chunk_e_def vacancies_defs)

theorem target_fallback_per_chunk_witness:
  "process_input sample_builtins ''Dev'' [chunk_b, chunk_c] =
     Inr ([(2020, 200), (2021, 300)], [(2020, 1), (2021, 1)],
          [(2020, 0), (2021, 0)], [(2020, 0), (2021, 0)]) \<and>
   keys ([(2020, 0), (2021, 0)] :: year_dict) = keys ([(2020, 200), (2021, 300)] :: year_dict) \<and>
   get_statistics sample_builtins ''Dev'' chunk_e =
     Inr ([(2020, 100), (2021, 300)], [(2020, 1), (2021, 1)], [(2020, 100)], [(2020, 1)]) \<and>
   set (keys ([(2020, 100)] :: year_dict)) = {2020} \<and>
   set (keys ([(2020, 1)] :: year_dict)) = {2020}"
proof -
  let ?vs = "[\<lparr>name = ''Dev'', salary_from = 100, salary_to = 100, salary_currency = ''RUR'',
           salary_average = Finite 100, area_name = ''Omsk'', year = 2020\<rparr>,
          \<lparr>name = ''QA'', salary_from = 300, salary_to = 300, salary_currency = ''RUR'',
           salary_average = Finite 300, area_name = ''Perm'', year = 2021\<rparr>]"
  have run: "process_input sample_builtins ''Dev'' [chunk_b, chunk_c] =
     Inr ([(2020, 200), (2021, 300)], [(2020, 1), (2021, 1)],
          [(2020, 0), (2021, 0)], [(2020, 0), (2021, 0)])"
    by (simp add: process_input_def chunk_b_statistics chunk_c_statistics get_united_dict_eq)
  have none: "\<forall>file\<in>set [chunk_b, chunk_c]. \<forall>vs. chunk_vacancies sample_builtins file = Inr vs \<longrightarrow>
      (\<forall>v\<in>set vs. \<not> matching ''Dev'' v)"
    by (auto simp: chunk_b_vacancies chunk_c_vacancies matching_def)
  note inst = target_fallback_per_chunk[of sample_builtins "''Dev''" "[chunk_b, chunk_c]"
      "[(2020, 200), (2021, 300)]" "[(2020, 1), (2021, 1)]" "[(2020, 0), (2021, 0)]"
      "[(2020, 0), (2021, 0)]" chunk_e ?vs
      "[(2020, 100), (2021, 300)]" "[(2020, 1), (2021, 1)]" "[(2020, 100)]" "[(2020, 1)]"]
  have keys: "keys ([(2020, 0), (2021, 0)] :: year_dict) = keys ([(2020, 200), (2021, 300)] :: year_dict)"
    using inst[THEN conjunct1] run none by blast
  have some: "\<exists>v\<in>set ?vs. matching ''Dev'' v" by (simp add: matching_def)
  have years: "year ` {v \<in> set ?vs. matching ''Dev'' v} = {2020}"
  proof -
    have "{v \<in> set ?vs. matching ''Dev'' v} = {?vs ! 0}"
      by (auto simp: matching_def)
    then show ?thesis by simp
  qed
  have "if \<exists>v\<in>set ?vs. matching ''Dev'' v
          then set (keys ([(2020, 100)] :: year_dict)) = year ` {v \<in> set ?vs. matching ''Dev'' v} \<and>
               set (keys ([(2020, 1)] :: year_dict)) = year ` {v \<in> set ?vs. matching ''Dev'' v}
          else keys ([(2020, 100)] :: year_dict) = keys ([(2020, 100), (2021, 300)] :: year_dict) \<and>
               keys ([(2020, 1)] :: year_dict) = keys ([(2020, 100), (2021, 300)] :: year_dict) \<and>
               (\<forall>(k, n)\<in>set ([(2020, 100)] :: year_dict). n = 0) \<and>
               (\<forall>(k, n)\<in>set ([(2020, 1)] :: year_dict). n = 0)"
    using inst[THEN conjunct2, rule_format, OF conjI, OF chunk_e_vacancies chunk_e_statistics] .
  then have "set (keys ([(2020, 100)] :: year_dict)) = {2020} \<and>
      set (keys ([(2020, 1)] :: year_dict)) = {2020}"
    using some years by (simp only: if_True)
  then show ?thesis using run keys chunk_e_statistics by blast
qed

end
